theory Spec2Isabelle
  imports Complex_Main "HOL-Library.Sublist" "HOL-Library.Multiset"
    "HOL-Library.Char_ord" "HOL-Library.List_Lexorder"
begin

section \<open>Strings\<close>

text \<open>
  JavaScript strings are modelled as \<^typ>\<open>string\<close>: one \<^typ>\<open>char\<close> per UTF-16 code unit,
  restricted to the code units below 256 (ASCII and Latin-1). On this range the character
  classes used by the regular expressions of the source (\<open>\w\<close>, \<open>\d\<close>, \<open>\s\<close>, the
  \<open>i\<close> flag on ASCII letters), \<open>trim\<close> and \<open>toLowerCase\<close> are the ones defined below.
\<close>

definition code :: "char \<Rightarrow> nat" where
  "code c = of_char c"

definition isDigit :: "char \<Rightarrow> bool" where
  "isDigit c = (48 \<le> code c \<and> code c \<le> 57)"

definition isNonZeroDigit :: "char \<Rightarrow> bool" where
  "isNonZeroDigit c = (49 \<le> code c \<and> code c \<le> 57)"

definition isUpper :: "char \<Rightarrow> bool" where
  "isUpper c = (65 \<le> code c \<and> code c \<le> 90)"

definition isLower :: "char \<Rightarrow> bool" where
  "isLower c = (97 \<le> code c \<and> code c \<le> 122)"

definition isWordChar :: "char \<Rightarrow> bool" where
  "isWordChar c = (isDigit c \<or> isUpper c \<or> isLower c \<or> c = CHR ''_'')"

definition isSpace :: "char \<Rightarrow> bool" where
  "isSpace c = (code c \<in> {9, 10, 11, 12, 13, 32, 160})"

definition trim :: "string \<Rightarrow> string" where
  "trim s = rev (dropWhile isSpace (rev (dropWhile isSpace s)))"

definition toLowerChar :: "char \<Rightarrow> char" where
  "toLowerChar c =
     (if isUpper c \<or> (192 \<le> code c \<and> code c \<le> 222 \<and> code c \<noteq> 215)
      then char_of (code c + 32) else c)"

definition toLowerCase :: "string \<Rightarrow> string" where
  "toLowerCase s = map toLowerChar s"

fun startsWith :: "string \<Rightarrow> string \<Rightarrow> bool" where
  "startsWith s [] = True"
| "startsWith [] (k # ks) = False"
| "startsWith (c # cs) (k # ks) = (c = k \<and> startsWith cs ks)"

fun includes_str :: "string \<Rightarrow> string \<Rightarrow> bool" where
  "includes_str [] k = (k = [])"
| "includes_str (c # cs) k = (startsWith (c # cs) k \<or> includes_str cs k)"

text \<open>\<open>x || d\<close> on a possibly missing string: a missing or empty string gives the default.\<close>

definition orElse :: "string option \<Rightarrow> string \<Rightarrow> string" where
  "orElse x d = (case x of None \<Rightarrow> d | Some s \<Rightarrow> if s = [] then d else s)"

fun showNat :: "nat \<Rightarrow> string" where
  "showNat n = (if n < 10 then [char_of (48 + n)] else showNat (n div 10) @ [char_of (48 + n mod 10)])"

declare showNat.simps [simp del]

definition decimal :: "string \<Rightarrow> nat" where
  "decimal s = foldl (\<lambda>a c. 10 * a + (code c - 48)) 0 s"

section \<open>Answer Oracle Client: \<open>callGroqAPI\<close> (content.js)\<close>

text \<open>
  The regular expression \<open>/\b([1-9]\d?)\b/g\<close>. A position of the subject is the pair of the
  code unit preceding it (if any) and the rest of the string. \<open>\b\<close> holds where exactly one
  of the two neighbours is a word character.
\<close>

definition isWordBefore :: "char option \<Rightarrow> bool" where
  "isWordBefore prev = (case prev of None \<Rightarrow> False | Some c \<Rightarrow> isWordChar c)"

definition isWordAfter :: "string \<Rightarrow> bool" where
  "isWordAfter rest = (case rest of [] \<Rightarrow> False | c # _ \<Rightarrow> isWordChar c)"

definition wordBoundary :: "char option \<Rightarrow> string \<Rightarrow> bool" where
  "wordBoundary prev rest = (isWordBefore prev \<noteq> isWordAfter rest)"

text \<open>
  One attempt to match at a position: \<open>\b\<close>, a digit 1 to 9, then greedily one more digit
  followed by \<open>\b\<close>, and on failure of that (backtracking) no further digit followed by
  \<open>\b\<close>. The result is the captured group and the rest of the subject after the match.
\<close>

fun matchHere :: "char option \<Rightarrow> string \<Rightarrow> (string \<times> string) option" where
  "matchHere prev [] = None"
| "matchHere prev (c # rest) =
     (if wordBoundary prev (c # rest) \<and> isNonZeroDigit c then
        (case rest of
           d # rest' \<Rightarrow>
             if isDigit d \<and> wordBoundary (Some d) rest' then Some ([c, d], rest')
             else if wordBoundary (Some c) rest then Some ([c], rest)
             else None
         | [] \<Rightarrow> if wordBoundary (Some c) [] then Some ([c], []) else None)
      else None)"

text \<open>
  \<open>matchAll\<close> with the \<open>g\<close> flag: try every position from left to right; after a match
  resume at its end, otherwise one code unit further.
\<close>

function matchAll :: "char option \<Rightarrow> string \<Rightarrow> string list" where
  "matchAll prev [] = []"
| "matchAll prev (c # rest) =
     (case matchHere prev (c # rest) of
        Some (m, rest') \<Rightarrow> m # matchAll (Some (last m)) rest'
      | None \<Rightarrow> matchAll (Some c) rest)"
  by pat_completeness auto
termination
  by (relation "measure (\<lambda>(prev, s). length s)")
     (auto split: if_splits list.splits)

record chat_response =
  ok :: bool
  status :: nat
  error_message :: "string option"
  message_content :: "string option"
  message_reasoning :: "string option"

text \<open>
  \<open>callGroqAPI\<close> after the request has been sent: the argument is the HTTP response
  (\<open>error_message\<close> is \<open>err.error?.message\<close> of a non-2xx body, \<open>message_content\<close> and
  \<open>message_reasoning\<close> are the two fields of \<open>data.choices?.[0]?.message\<close>). A thrown
  \<open>Error\<close> is \<open>Inl\<close> of its message, \<open>null\<close> is \<open>None\<close>.
\<close>

definition parseAnswer :: "string \<Rightarrow> string \<Rightarrow> nat \<Rightarrow> nat option" where
  "parseAnswer content reasoning numChoices =
     (let combined = content @ '' '' @ reasoning;
          matches = matchAll None combined;
          valid = filter (\<lambda>n. 1 \<le> n \<and> n \<le> numChoices) (map decimal matches)
      in if length valid > 0 then Some (last valid) else None)"

definition callGroqAPI :: "chat_response \<Rightarrow> string list \<Rightarrow> string + nat option" where
  "callGroqAPI response answers =
     (if \<not> ok response then
        Inl (orElse (error_message response) (''API error: '' @ showNat (status response)))
      else
        let content = trim (orElse (message_content response) []);
            reasoning = trim (orElse (message_reasoning response) [])
        in Inr (parseAnswer content reasoning (length answers)))"

text \<open>
  The claim's reading of the parse, in the words of the specification: an integer token is
  a maximal run of word characters that is a decimal numeral of a positive integer (digits
  only, no leading zero); the answer is the last token of the primary text followed by the
  reasoning text whose value lies in \<open>[1, N]\<close>.
\<close>

function words :: "string \<Rightarrow> string list" where
  "words [] = []"
| "words (c # cs) =
     (if isWordChar c then takeWhile isWordChar (c # cs) # words (dropWhile isWordChar cs)
      else words cs)"
  by pat_completeness auto
termination
  by (relation "measure length") (auto simp: le_imp_less_Suc length_dropWhile_le)

definition isIntegerToken :: "string \<Rightarrow> bool" where
  "isIntegerToken t = (t \<noteq> [] \<and> list_all isDigit t \<and> isNonZeroDigit (hd t))"

definition integerTokens :: "string \<Rightarrow> nat list" where
  "integerTokens s = map decimal (filter isIntegerToken (words s))"

definition spec_lastIntegerToken :: "string \<Rightarrow> string \<Rightarrow> nat \<Rightarrow> nat option" where
  "spec_lastIntegerToken c r N =
     (let inRange = filter (\<lambda>n. 1 \<le> n \<and> n \<le> N) (integerTokens c @ integerTokens r)
      in if inRange = [] then None else Some (last inRange))"

text \<open>The tokens the regular expression can match: integer tokens of one or two digits.\<close>

definition shortNumeral :: "string \<Rightarrow> bool" where
  "shortNumeral t = (isIntegerToken t \<and> length t \<le> 2)"

section \<open>The page: DOM trees and selectors\<close>

text \<open>
  A DOM node is a text node, an element (tag name in lower case, attributes, child nodes
  and, when it hosts an open shadow tree, its shadow root) or a container without a tag:
  the document itself and a shadow root are \<open>Fragment\<close>s. An element handle is the
  element's subtree.
\<close>

datatype node =
    Text string
  | Element string "(string \<times> string) list" "node list" "node option"
  | Fragment "node list"

fun childNodes :: "node \<Rightarrow> node list" where
  "childNodes (Text t) = []"
| "childNodes (Element tag attrs kids sr) = kids"
| "childNodes (Fragment kids) = kids"

fun shadowRoot :: "node \<Rightarrow> node option" where
  "shadowRoot (Element tag attrs kids sr) = sr"
| "shadowRoot n = None"

fun isElement :: "node \<Rightarrow> bool" where
  "isElement (Element tag attrs kids sr) = True"
| "isElement n = False"

fun getAttribute :: "node \<Rightarrow> string \<Rightarrow> string option" where
  "getAttribute (Element tag attrs kids sr) name = map_of attrs name"
| "getAttribute n name = None"

definition hasAttribute :: "node \<Rightarrow> string \<Rightarrow> bool" where
  "hasAttribute n name = (getAttribute n name \<noteq> None)"

text \<open>The \<open>disabled\<close> property of a button reflects the presence of the attribute.\<close>

definition disabled :: "node \<Rightarrow> bool" where
  "disabled n = hasAttribute n ''disabled''"

fun textContent :: "node \<Rightarrow> string" where
  "textContent (Text t) = t"
| "textContent (Element tag attrs kids sr) = concat (map textContent kids)"
| "textContent (Fragment kids) = concat (map textContent kids)"

text \<open>
  The selectors of the source: a compound selector is a list of simple selectors that
  must all hold of one element (\<open>ul[aria-labelledby]\<close> is
  \<open>[Tag ''ul'', HasAttr ''aria-labelledby'']\<close>, \<open>*\<close> is the empty list), and
  \<open>p > c\<close> is \<open>ChildOf p c\<close>.
\<close>

datatype simple = Tag string | HasAttr string | AttrEquals string string | AttrContains string string

datatype selector = Sel "simple list" | ChildOf "simple list" "simple list"

text \<open>
  In an HTML document an attribute selector compares the values of the attributes listed
  below without regard to ASCII case (so \<open>button[type="button"]\<close> selects a button
  with \<open>type="BUTTON"\<close>); the values of all other attributes, \<open>class\<close> among them,
  are compared exactly.
\<close>

definition caseInsensitiveAttributes :: "string list" where
  "caseInsensitiveAttributes =
     [''accept'', ''accept-charset'', ''align'', ''alink'', ''axis'', ''bgcolor'', ''charset'',
      ''checked'', ''clear'', ''codetype'', ''color'', ''compact'', ''declare'', ''defer'', ''dir'',
      ''direction'', ''disabled'', ''enctype'', ''face'', ''frame'', ''hreflang'', ''http-equiv'',
      ''lang'', ''language'', ''link'', ''media'', ''method'', ''multiple'', ''nohref'',
      ''noresize'', ''noshade'', ''nowrap'', ''readonly'', ''rel'', ''rev'', ''rules'', ''scope'',
      ''scrolling'', ''selected'', ''shape'', ''target'', ''text'', ''type'', ''valign'',
      ''valuetype'', ''vlink'']"

definition asciiLower :: "char \<Rightarrow> char" where
  "asciiLower c = (if isUpper c then char_of (code c + 32) else c)"

definition selectorValue :: "string \<Rightarrow> string \<Rightarrow> string" where
  "selectorValue a v = (if a \<in> set caseInsensitiveAttributes then map asciiLower v else v)"

fun matchesSimple :: "node \<Rightarrow> simple \<Rightarrow> bool" where
  "matchesSimple (Element tag attrs kids sr) (Tag t) = (tag = t)"
| "matchesSimple (Element tag attrs kids sr) (HasAttr a) = (map_of attrs a \<noteq> None)"
| "matchesSimple (Element tag attrs kids sr) (AttrEquals a v) =
     (case map_of attrs a of
        None \<Rightarrow> False
      | Some w \<Rightarrow> selectorValue a w = selectorValue a v)"
| "matchesSimple (Element tag attrs kids sr) (AttrContains a v) =
     (case map_of attrs a of
        None \<Rightarrow> False
      | Some w \<Rightarrow> v \<noteq> [] \<and> includes_str (selectorValue a w) (selectorValue a v))"
| "matchesSimple n s = False"

definition matchesCompound :: "node \<Rightarrow> simple list \<Rightarrow> bool" where
  "matchesCompound n c = (isElement n \<and> list_all (matchesSimple n) c)"

fun matches :: "node \<Rightarrow> node \<Rightarrow> selector \<Rightarrow> bool" where
  "matches parent el (Sel c) = matchesCompound el c"
| "matches parent el (ChildOf pc c) = (matchesCompound el c \<and> matchesCompound parent pc)"

text \<open>
  The elements below a node in document order, without entering shadow trees, each with
  its parent node and its preceding siblings (nearest first).
\<close>

fun walk :: "node \<Rightarrow> node list \<Rightarrow> node list \<Rightarrow> (node \<times> node list \<times> node) list" where
  "walk parent preceding [] = []"
| "walk parent preceding (Element tag attrs kids sr # ns) =
     (parent, preceding, Element tag attrs kids sr)
       # walk (Element tag attrs kids sr) [] kids
       @ walk parent (Element tag attrs kids sr # preceding) ns"
| "walk parent preceding (n # ns) = walk parent (n # preceding) ns"

definition querySelectorAllCtx :: "node \<Rightarrow> selector \<Rightarrow> (node \<times> node list \<times> node) list" where
  "querySelectorAllCtx rootNode sel =
     filter (\<lambda>(parent, preceding, el). matches parent el sel) (walk rootNode [] (childNodes rootNode))"

definition querySelectorAll :: "node \<Rightarrow> selector \<Rightarrow> node list" where
  "querySelectorAll rootNode sel = map (\<lambda>(parent, preceding, el). el) (querySelectorAllCtx rootNode sel)"

definition querySelector :: "node \<Rightarrow> selector \<Rightarrow> node option" where
  "querySelector rootNode sel = (case querySelectorAll rootNode sel of [] \<Rightarrow> None | el # _ \<Rightarrow> Some el)"

text \<open>\<open>QUIZ_SELECTORS\<close> (content.js).\<close>

definition article :: selector where
  "article = Sel [Tag ''article'']"

definition answerList :: selector where
  "answerList = Sel [Tag ''ul'', HasAttr ''aria-labelledby'']"

definition answerItems :: selector where
  "answerItems = ChildOf [Tag ''ul'', HasAttr ''aria-labelledby''] [Tag ''li'']"

definition answerButton :: selector where
  "answerButton = Sel [Tag ''button'', AttrEquals ''type'' ''button'']"

definition checkAnswerBtn :: "node \<Rightarrow> node option" where
  "checkAnswerBtn doc =
     find (\<lambda>b. includes_str (textContent b) ''Check Answer'') (querySelectorAll doc (Sel [Tag ''button'']))"

text \<open>
  The source also accepts a button whose text is exactly the arrow U+2192; that code unit
  is outside the modelled range, so the disjunct is false on every modelled text.
\<close>

definition nextButton :: "node \<Rightarrow> node option" where
  "nextButton doc =
     find (\<lambda>b. let t = toLowerCase (trim (textContent b))
               in (includes_str t ''next'' \<or> includes_str t ''continue'') \<and> \<not> includes_str t ''check'')
       (querySelectorAll doc (Sel [Tag ''button'']))"

section \<open>Shadow trees: \<open>findInDocument\<close> (content.js)\<close>

fun firstSome :: "('a \<Rightarrow> 'b option) \<Rightarrow> 'a list \<Rightarrow> 'b option" where
  "firstSome f [] = None"
| "firstSome f (x # xs) = (case f x of Some y \<Rightarrow> Some y | None \<Rightarrow> firstSome f xs)"

lemma firstSome_cong [fundef_cong]:
  "xs = ys \<Longrightarrow> (\<And>x. x \<in> set ys \<Longrightarrow> f x = g x) \<Longrightarrow> firstSome f xs = firstSome g ys"
  by (induction ys arbitrary: xs) (auto split: option.splits)

lemma walk_size:
  "(p, b, e) \<in> set (walk parent preceding ns) \<Longrightarrow> size e < Suc (size_list size ns)"
  by (induction parent preceding ns rule: walk.induct) auto

lemma querySelectorAll_size:
  assumes "e \<in> set (querySelectorAll rootNode sel)"
  shows "size e < size rootNode"
proof -
  from assms obtain p b where w: "(p, b, e) \<in> set (walk rootNode [] (childNodes rootNode))"
    by (auto simp: querySelectorAll_def querySelectorAllCtx_def)
  then have "size e < Suc (size_list size (childNodes rootNode))" by (rule walk_size)
  with w show ?thesis by (cases rootNode) auto
qed

function findInDocument :: "node \<Rightarrow> selector \<Rightarrow> node option" where
  "findInDocument rootNode selector =
     (case querySelector rootNode selector of
        Some el \<Rightarrow> Some el
      | None \<Rightarrow>
          firstSome (\<lambda>n. case shadowRoot n of
                            Some sr \<Rightarrow> findInDocument sr selector
                          | None \<Rightarrow> None)
            (querySelectorAll rootNode (Sel [])))"
  by pat_completeness auto
termination
proof (relation "measure (\<lambda>(rootNode, selector). size rootNode)")
  show "wf (measure (\<lambda>(rootNode, selector). size rootNode))" by simp
next
  fix rootNode :: node and selector :: selector and n sr
  assume n: "n \<in> set (querySelectorAll rootNode (Sel []))" and sr: "shadowRoot n = Some sr"
  from n have "size n < size rootNode" by (rule querySelectorAll_size)
  moreover have "size sr < size n" using sr by (cases n) auto
  ultimately show "((sr, selector), rootNode, selector) \<in> measure (\<lambda>(rootNode, selector). size rootNode)"
    by simp
qed

declare findInDocument.simps [simp del]

section \<open>Page Classifier and Extractor (content.js)\<close>

definition isQuizPage :: "node \<Rightarrow> bool" where
  "isQuizPage document =
     (case querySelector document answerList of
        None \<Rightarrow> False
      | Some list \<Rightarrow>
          let items = querySelectorAll list answerItems in
          if length items < 2 then False
          else
            let buttons = List.map_filter (\<lambda>li. querySelector li answerButton) items in
            if length buttons < 2 then False else True)"

text \<open>
  \<open>s.replace(re, '')\<close> for a regular expression without the \<open>g\<close> flag: the leftmost
  match is removed. A regular expression is given by the length of its match at the start
  of a string, if it matches there. The two expressions are \<open>/Atomi Question\s*/i\<close> and
  \<open>/Choice [A-Z]\s*/i\<close>.
\<close>

fun startsWithCI :: "string \<Rightarrow> string \<Rightarrow> bool" where
  "startsWithCI s [] = True"
| "startsWithCI [] (k # ks) = False"
| "startsWithCI (c # cs) (k # ks) = (toLowerChar c = toLowerChar k \<and> startsWithCI cs ks)"

definition atomiQuestionRe :: "string \<Rightarrow> nat option" where
  "atomiQuestionRe s =
     (if startsWithCI s ''Atomi Question''
      then Some (14 + length (takeWhile isSpace (drop 14 s))) else None)"

definition choiceLetter :: "string \<Rightarrow> bool" where
  "choiceLetter s =
     (startsWithCI s ''Choice '' \<and>
      (case drop 7 s of [] \<Rightarrow> False | l # _ \<Rightarrow> isUpper l \<or> isLower l))"

definition choiceRe :: "string \<Rightarrow> nat option" where
  "choiceRe s =
     (if choiceLetter s then Some (8 + length (takeWhile isSpace (drop 8 s))) else None)"

fun removeFirst :: "(string \<Rightarrow> nat option) \<Rightarrow> string \<Rightarrow> string" where
  "removeFirst re [] = []"
| "removeFirst re (c # cs) =
     (case re (c # cs) of Some n \<Rightarrow> drop n (c # cs) | None \<Rightarrow> c # removeFirst re cs)"

text \<open>
  \<open>allText.split(/(?=Choice [A-Z]|50\.|53\.|56\.)/i)[0]\<close>: the text up to the first
  position after the start where the lookahead holds.
\<close>

definition splitPoint :: "string \<Rightarrow> bool" where
  "splitPoint s =
     (choiceLetter s \<or> startsWith s ''50.'' \<or> startsWith s ''53.'' \<or> startsWith s ''56.'')"

fun upTo :: "(string \<Rightarrow> bool) \<Rightarrow> string \<Rightarrow> string" where
  "upTo p [] = []"
| "upTo p (c # cs) = (if p (c # cs) then [] else c # upTo p cs)"

definition firstPart :: "string \<Rightarrow> string" where
  "firstPart s = (case s of [] \<Rightarrow> [] | c # cs \<Rightarrow> c # upTo splitPoint cs)"

text \<open>
  \<open>getQuestionText\<close>. \<open>innerText\<close> depends on the rendering of the page and is a
  parameter.
\<close>

definition getQuestionText :: "(node \<Rightarrow> string) \<Rightarrow> node \<Rightarrow> string" where
  "getQuestionText innerText document =
     (case querySelector document article of
        None \<Rightarrow> []
      | Some art \<Rightarrow>
          let siblings =
                (case querySelectorAllCtx art answerList of
                   [] \<Rightarrow> []
                 | (parent, preceding, list) # _ \<Rightarrow> filter isElement preceding);
              texts = map (\<lambda>questionContainer. trim (textContent questionContainer)) siblings
          in case find (\<lambda>text. text \<noteq> [] \<and> \<not> includes_str text ''Atomi Question'' \<and> length text > 5)
                    texts of
               Some text \<Rightarrow> trim (removeFirst atomiQuestionRe text)
             | None \<Rightarrow>
                 let allText = orElse (Some (innerText art)) (orElse (Some (textContent art)) []);
                     part0 = firstPart allText
                 in trim (removeFirst atomiQuestionRe (if part0 \<noteq> [] then part0 else allText)))"

definition answerText :: "node \<Rightarrow> string" where
  "answerText li =
     (case querySelector li answerButton of
        None \<Rightarrow> []
      | Some btn \<Rightarrow>
          let textEl = (case querySelector btn (Sel [AttrContains ''class'' ''Markdown'']) of
                          Some el \<Rightarrow> Some el
                        | None \<Rightarrow> querySelector btn (Sel [Tag ''div'']))
          in trim (removeFirst choiceRe
                     (orElse (map_option textContent textEl) (orElse (Some (textContent btn)) []))))"

definition getAnswers :: "node \<Rightarrow> string list" where
  "getAnswers document =
     (case querySelector document answerList of
        None \<Rightarrow> []
      | Some list \<Rightarrow> filter (\<lambda>t. t \<noteq> []) (map answerText (querySelectorAll list answerItems)))"

definition getAnswerButtons :: "node \<Rightarrow> node list" where
  "getAnswerButtons document =
     (case querySelector document answerList of
        None \<Rightarrow> []
      | Some list \<Rightarrow>
          List.map_filter (\<lambda>li. querySelector li answerButton) (querySelectorAll list answerItems))"

section \<open>Actuator for multiple choice: \<open>solveCurrentQuestion\<close> (content.js)\<close>

record solve_result =
  success :: bool
  index :: "int option"
  error :: "string option"

definition showInt :: "int \<Rightarrow> string" where
  "showInt i = (if i < 0 then ''-'' @ showNat (nat (- i)) else showNat (nat i))"

text \<open>
  The oracle is a parameter: given the question and the answers it throws (\<open>Inl\<close>) or
  returns an index or \<open>null\<close>; in the extension it is \<open>callGroqAPI\<close> on the response
  of the service. The result is what \<open>solveCurrentQuestion\<close> returns or throws, together
  with the buttons it clicked, in order.
\<close>

definition solveCurrentQuestion ::
  "(node \<Rightarrow> string) \<Rightarrow> (string \<Rightarrow> string list \<Rightarrow> string + int option) \<Rightarrow> node
     \<Rightarrow> (string + solve_result) \<times> node list" where
  "solveCurrentQuestion innerText oracle document =
     (let question = getQuestionText innerText document;
          answers = getAnswers document;
          buttons = getAnswerButtons document
      in if question = [] \<or> length answers = 0 \<or> length buttons = 0 then
           (Inr \<lparr>success = False, index = None,
                 error = Some ''Could not extract question or answers''\<rparr>, [])
         else
           case oracle question answers of
             Inl err \<Rightarrow> (Inl err, [])
           | Inr None \<Rightarrow>
               (Inr \<lparr>success = False, index = None,
                     error = Some ''Invalid API response (got null)''\<rparr>, [])
           | Inr (Some answerIndex) \<Rightarrow>
               if answerIndex < 1 \<or> answerIndex > int (length buttons) then
                 (Inr \<lparr>success = False, index = None,
                       error = Some (''Invalid API response (got '' @ showInt answerIndex @ '')'')\<rparr>, [])
               else
                 (Inr \<lparr>success = True, index = Some answerIndex, error = None\<rparr>,
                  [buttons ! (nat answerIndex - 1)]))"

text \<open>The oracle of the extension: \<open>callGroqAPI\<close> on the response of the service.\<close>

definition groqOracle :: "chat_response \<Rightarrow> string \<Rightarrow> string list \<Rightarrow> string + int option" where
  "groqOracle response question answers =
     (case callGroqAPI response answers of
        Inl err \<Rightarrow> Inl err
      | Inr r \<Rightarrow> Inr (map_option int r))"

section \<open>Polling for the quiz controls (content.js)\<close>

text \<open>
  \<open>waitForCheckAnswerEnabled\<close> and \<open>waitForNextButton\<close> look at the page every 200 ms
  until the timeout has passed. The argument is the list of the pages seen at the
  successive polls preceding the deadline; \<open>None\<close> is \<open>null\<close>.
\<close>

fun waitForCheckAnswerEnabled :: "node list \<Rightarrow> node option" where
  "waitForCheckAnswerEnabled [] = None"
| "waitForCheckAnswerEnabled (doc # later) =
     (case checkAnswerBtn doc of
        Some btn \<Rightarrow> if \<not> hasAttribute btn ''aria-disabled'' then Some btn
                    else waitForCheckAnswerEnabled later
      | None \<Rightarrow> waitForCheckAnswerEnabled later)"

fun waitForNextButton :: "node list \<Rightarrow> node option" where
  "waitForNextButton [] = None"
| "waitForNextButton (doc # later) =
     (case nextButton doc of
        Some btn \<Rightarrow> if \<not> disabled btn then Some btn else waitForNextButton later
      | None \<Rightarrow> waitForNextButton later)"

section \<open>Run-All Loop: \<open>runAllQuestions\<close> (content.js)\<close>

text \<open>
  The loop runs on the single thread of the page: other handlers run only while it is
  suspended in an \<open>await\<close>. The handlers that write \<open>isAutoRunning\<close> are the click
  handler of the Stop button and \<open>runAllQuestions\<close> itself, called by the click handler of
  the Run All button (which is enabled again as soon as \<open>runAllQuestions\<close> has returned,
  that is, while the loop is still running). \<open>RunAllClicked doc\<close> is such a click, with an
  API key stored, while the page is \<open>doc\<close>: when the flag is clear it is set and a
  second loop starts, which ends at once if the page is no quiz page and is otherwise
  taken to stay in its first oracle call; its own steps are not followed here.

  The state is the flag and the trace of what has happened: a test of the loop condition
  (\<open>Boundary\<close>), a status message, the start of an extraction, a click of the loop, or a
  handler run.
\<close>

datatype env_event = StopClicked | RunAllClicked node

datatype item =
    Boundary
  | Status string
  | Extract
  | ClickAnswer node
  | ClickCheck node
  | ClickNext node
  | Env env_event

record run_state =
  isAutoRunning :: bool
  trace :: "item list"

definition emit :: "item \<Rightarrow> run_state \<Rightarrow> run_state" where
  "emit x st = st\<lparr>trace := trace st @ [x]\<rparr>"

fun handler :: "env_event \<Rightarrow> run_state \<Rightarrow> run_state" where
  "handler StopClicked st =
     emit (Status ''Stopping...'') ((emit (Env StopClicked) st)\<lparr>isAutoRunning := False\<rparr>)"
| "handler (RunAllClicked doc) st =
     (let st1 = emit (Env (RunAllClicked doc)) st
      in if isAutoRunning st1 then st1
         else if isQuizPage doc then st1\<lparr>isAutoRunning := True\<rparr>
         else st1\<lparr>isAutoRunning := False\<rparr>)"

text \<open>An \<open>await\<close> during which the given handlers run, in order.\<close>

definition during :: "env_event list \<Rightarrow> run_state \<Rightarrow> run_state" where
  "during evs st = foldl (\<lambda>s ev. handler ev s) st evs"

text \<open>
  The two polls inside the loop: each entry is the page at a poll and the handlers that
  run during the 200 ms sleep after it.
\<close>

fun awaitCheckAnswerEnabled ::
  "(node \<times> env_event list) list \<Rightarrow> run_state \<Rightarrow> node option \<times> run_state" where
  "awaitCheckAnswerEnabled [] st = (None, st)"
| "awaitCheckAnswerEnabled ((doc, evs) # later) st =
     (case checkAnswerBtn doc of
        Some btn \<Rightarrow> if \<not> hasAttribute btn ''aria-disabled'' then (Some btn, st)
                    else awaitCheckAnswerEnabled later (during evs st)
      | None \<Rightarrow> awaitCheckAnswerEnabled later (during evs st))"

fun awaitNextButton ::
  "(node \<times> env_event list) list \<Rightarrow> run_state \<Rightarrow> node option \<times> run_state" where
  "awaitNextButton [] st = (None, st)"
| "awaitNextButton ((doc, evs) # later) st =
     (case nextButton doc of
        Some btn \<Rightarrow> if \<not> disabled btn then (Some btn, st)
                    else awaitNextButton later (during evs st)
      | None \<Rightarrow> awaitNextButton later (during evs st))"

text \<open>
  What one iteration meets: the page at the loop test (the extraction follows it without
  an \<open>await\<close>), the outcome of the oracle call, the pages seen by the two polls, and the
  handlers that run during each \<open>await\<close>.
\<close>

record iteration =
  page :: node
  oracleResult :: "string + int option"
  duringSolve :: "env_event list"
  duringSettle :: "env_event list"
  checkPolls :: "(node \<times> env_event list) list"
  duringCheckPause :: "env_event list"
  nextPolls :: "(node \<times> env_event list) list"
  duringNextPause :: "env_event list"

text \<open>The body of the \<open>while\<close> loop; the first component is False after a \<open>break\<close>.\<close>

definition loopBody :: "(node \<Rightarrow> string) \<Rightarrow> iteration \<Rightarrow> run_state \<Rightarrow> bool \<times> run_state" where
  "loopBody innerText s st =
     (let st1 = emit Extract (emit (Status ''Solving current question...'') st);
          (solved, clicks) = solveCurrentQuestion innerText (\<lambda>question answers. oracleResult s) (page s);
          st2 = during (duringSolve s) st1;
          st3 = foldl (\<lambda>st' btn. emit (ClickAnswer btn) st') st2 clicks
      in case solved of
           Inl err \<Rightarrow> (False, emit (Status (''Error: '' @ err)) st3)
         | Inr r \<Rightarrow>
             if \<not> success r then
               (False, emit (Status (''Stopped: '' @ orElse (error r) ''undefined'')) st3)
             else
               let st4 = during (duringSettle s) st3;
                   (checkBtn, st5) = awaitCheckAnswerEnabled (checkPolls s) st4;
                   st6 = (case checkBtn of
                            Some btn \<Rightarrow> during (duringCheckPause s) (emit (ClickCheck btn) st5)
                          | None \<Rightarrow> st5);
                   (nextBtn, st7) = awaitNextButton (nextPolls s) st6
               in case nextBtn of
                    Some btn \<Rightarrow>
                      (True, during (duringNextPause s)
                               (emit (ClickNext btn) (emit (Status ''Moving to next question...'') st7)))
                  | None \<Rightarrow> (False, emit (Status ''Quiz complete!'') st7))"

definition finallyBlock :: "run_state \<Rightarrow> run_state" where
  "finallyBlock st = emit (Status ''Ready'') (st\<lparr>isAutoRunning := False\<rparr>)"

text \<open>
  \<open>runLoop\<close> over the iterations the page offers; \<open>None\<close> when the loop would go on after
  the last of them.
\<close>

fun runLoop :: "(node \<Rightarrow> string) \<Rightarrow> iteration list \<Rightarrow> run_state \<Rightarrow> run_state option" where
  "runLoop innerText [] st =
     (if isAutoRunning st then None else Some (finallyBlock (emit Boundary st)))"
| "runLoop innerText (s # later) st =
     (if isAutoRunning st \<and> isQuizPage (page s) then
        (case loopBody innerText s (emit Boundary st) of
           (True, st') \<Rightarrow> runLoop innerText later st'
         | (False, st') \<Rightarrow> Some (finallyBlock st'))
      else Some (finallyBlock (emit Boundary st)))"

definition runAllQuestions ::
  "(node \<Rightarrow> string) \<Rightarrow> iteration list \<Rightarrow> run_state \<Rightarrow> run_state option" where
  "runAllQuestions innerText script st =
     (if isAutoRunning st then Some st
      else runLoop innerText script (st\<lparr>isAutoRunning := True\<rparr>))"

text \<open>
  The claim on a trace: after every stop request, nothing is extracted and no answer is
  clicked once the next test of the loop condition has been passed.
\<close>

fun isSolveStep :: "item \<Rightarrow> bool" where
  "isSolveStep Extract = True"
| "isSolveStep (ClickAnswer btn) = True"
| "isSolveStep x = False"

fun afterBoundary :: "item list \<Rightarrow> item list" where
  "afterBoundary [] = []"
| "afterBoundary (Boundary # xs) = xs"
| "afterBoundary (x # xs) = afterBoundary xs"

fun stopObserved :: "item list \<Rightarrow> bool" where
  "stopObserved [] = True"
| "stopObserved (Env StopClicked # xs) =
     (list_all (\<lambda>x. \<not> isSolveStep x) (afterBoundary xs) \<and> stopObserved xs)"
| "stopObserved (x # xs) = stopObserved xs"

text \<open>
  An iteration without restart: every handler that runs while the loop is suspended in it
  is the Stop handler. \<open>advances nr st st'\<close>: the trace has grown by items other than a
  loop test and, when \<open>nr\<close> holds, the flag is set afterwards exactly if it was set and no
  stop request is among them.
\<close>

definition onlyStops :: "env_event list \<Rightarrow> bool" where
  "onlyStops evs = list_all (\<lambda>ev. ev = StopClicked) evs"

definition noRestart :: "iteration \<Rightarrow> bool" where
  "noRestart s =
     (onlyStops (duringSolve s) \<and> onlyStops (duringSettle s)
      \<and> list_all (\<lambda>(doc, evs). onlyStops evs) (checkPolls s)
      \<and> onlyStops (duringCheckPause s)
      \<and> list_all (\<lambda>(doc, evs). onlyStops evs) (nextPolls s)
      \<and> onlyStops (duringNextPause s))"

definition advances :: "bool \<Rightarrow> run_state \<Rightarrow> run_state \<Rightarrow> bool" where
  "advances nr st st' =
     (\<exists>items. trace st' = trace st @ items \<and> Boundary \<notin> set items
        \<and> (nr \<longrightarrow> isAutoRunning st' = (isAutoRunning st \<and> Env StopClicked \<notin> set items)))"

section \<open>Video Watchdog: \<open>setupVideoAutoAdvance\<close> (content.js)\<close>

text \<open>
  The media element as the handlers read it: \<open>duration\<close> is \<open>None\<close> when it is
  \<open>NaN\<close> or infinite (the test of \<open>checkTime\<close> fails for both). The state is the module flag \<open>videoAutoAdvanceEnabled\<close>, the local flag
  \<open>advanced\<close> of \<open>attachNativeListener\<close>, \<open>videoEndedListener\<close> (whether it is set
  and whether its interval is) and the log of what \<open>advanceToNext\<close> did. The result of
  \<open>getVideoNextButton()\<close> at the time of a call is a parameter.
\<close>

record video =
  duration :: "real option"
  currentTime :: real
  ended :: bool

datatype 'b watch_action = WatchStatus string | ClickNextLink 'b | ReattachIn nat

record 'b watchdog =
  videoAutoAdvanceEnabled :: bool
  advanced :: bool
  listenerSet :: bool
  intervalSet :: bool
  actions :: "'b watch_action list"

definition ADVANCE_SECONDS_BEFORE_END :: real where
  "ADVANCE_SECONDS_BEFORE_END = 10"

definition advanceToNext :: "'b option \<Rightarrow> 'b watchdog \<Rightarrow> 'b watchdog" where
  "advanceToNext nextBtn w =
     (let w1 = (if listenerSet w \<and> intervalSet w then w\<lparr>intervalSet := False\<rparr> else w)
      in case nextBtn of
           Some btn \<Rightarrow>
             w1\<lparr>actions := actions w1 @
                    [WatchStatus ''Advancing to next...'', ClickNextLink btn, ReattachIn 2000],
                listenerSet := False\<rparr>
         | None \<Rightarrow> w1\<lparr>actions := actions w1 @ [WatchStatus ''No Next button found'']\<rparr>)"

definition nearEnd :: "video \<Rightarrow> bool" where
  "nearEnd v =
     (case duration v of
        None \<Rightarrow> False
      | Some d \<Rightarrow> d > 0 \<and> currentTime v \<ge> max 0 (d - ADVANCE_SECONDS_BEFORE_END))"

definition checkTime :: "video \<Rightarrow> 'b option \<Rightarrow> 'b watchdog \<Rightarrow> 'b watchdog" where
  "checkTime v nextBtn w =
     (if \<not> videoAutoAdvanceEnabled w \<or> advanced w then w
      else
        let w1 = (if nearEnd v then advanceToNext nextBtn (w\<lparr>advanced := True\<rparr>) else w);
            w2 = (if ended v then advanceToNext nextBtn (w1\<lparr>advanced := True\<rparr>) else w1)
        in w2)"

definition onEnded :: "'b option \<Rightarrow> 'b watchdog \<Rightarrow> 'b watchdog" where
  "onEnded nextBtn w =
     (if \<not> videoAutoAdvanceEnabled w \<or> advanced w then w
      else advanceToNext nextBtn (w\<lparr>advanced := True\<rparr>))"

text \<open>
  The state after \<open>attachNativeListener\<close> on a video with the watchdog enabled, and the
  three sources of calls: the \<open>timeupdate\<close> listener, the 500 ms interval (while it is
  set) and the \<open>ended\<close> listener.
\<close>

definition attached :: "'b watchdog" where
  "attached = \<lparr>videoAutoAdvanceEnabled = True, advanced = False, listenerSet = True,
                intervalSet = True, actions = []\<rparr>"

datatype watch_event = TimeUpdate | PollTick | Ended

fun handleEvent :: "watch_event \<Rightarrow> video \<Rightarrow> 'b option \<Rightarrow> 'b watchdog \<Rightarrow> 'b watchdog" where
  "handleEvent TimeUpdate v nextBtn w = checkTime v nextBtn w"
| "handleEvent PollTick v nextBtn w = (if intervalSet w then checkTime v nextBtn w else w)"
| "handleEvent Ended v nextBtn w = onEnded nextBtn w"

fun runEvents :: "(watch_event \<times> video \<times> 'b option) list \<Rightarrow> 'b watchdog \<Rightarrow> 'b watchdog" where
  "runEvents [] w = w"
| "runEvents ((ev, v, nextBtn) # evs) w = runEvents evs (handleEvent ev v nextBtn w)"

fun isNavigation :: "'b watch_action \<Rightarrow> bool" where
  "isNavigation (ClickNextLink b) = True"
| "isNavigation a = False"

definition navigations :: "'b watchdog \<Rightarrow> nat" where
  "navigations w = length (filter isNavigation (actions w))"

section \<open>Actuator for math fields: \<open>setMathFieldValue\<close> (content.js)\<close>

text \<open>
  What the actuator needs to know of the \<open>math-field\<close> element and of the page: the
  element's id, which of its optional methods exist, whether \<open>value\<close> has a setter,
  whether \<open>document.body\<close> exists and whether a \<open>DataTransfer\<close> can be built. The result
  is the sequence of what the actuator does to the field.
\<close>

record math_field =
  fieldId :: string
  canFocus :: bool
  canScrollIntoView :: bool
  hasSetValue :: bool
  hasInsert :: bool
  hasExecuteCommand :: bool
  hasValueSetter :: bool

record page_env =
  hasBody :: bool
  hasDataTransfer :: bool

datatype field_action =
    Focus
  | ScrollIntoView
  | InjectScript string string
  | PasteEvent string
  | Settle nat
  | CallSetValue string
  | CallInsert string
  | CallExecuteCommand string string
  | CallValueSetter string
  | AssignValue string
  | InputEvent
  | ChangeEvent

fun escapeId :: "string \<Rightarrow> string" where
  "escapeId [] = []"
| "escapeId (c # cs) =
     (if c = CHR 0x5C then [CHR 0x5C, CHR 0x5C]
      else if c = CHR 0x22 then [CHR 0x5C, CHR 0x22]
      else if c = CHR ''<'' then CHR 0x5C # ''u003c''
      else [c]) @ escapeId cs"

definition dispatchPasteWithData :: "page_env \<Rightarrow> math_field \<Rightarrow> string \<Rightarrow> field_action list" where
  "dispatchPasteWithData env mathField latex =
     (if \<not> hasDataTransfer env then []
      else (if canFocus mathField then [Focus] else []) @ [PasteEvent latex])"

definition forceSetValue :: "math_field \<Rightarrow> string \<Rightarrow> field_action list" where
  "forceSetValue el v = (if hasValueSetter el then [CallValueSetter v] else [AssignValue v])"

definition setMathFieldValueInPage :: "page_env \<Rightarrow> string \<Rightarrow> string \<Rightarrow> field_action list" where
  "setMathFieldValueInPage env mathFieldId latex =
     (if mathFieldId = [] \<or> \<not> hasBody env then []
      else [InjectScript (escapeId mathFieldId) latex])"

definition setMathFieldValue :: "page_env \<Rightarrow> math_field \<Rightarrow> string \<Rightarrow> field_action list" where
  "setMathFieldValue env mathField latex =
     (if canFocus mathField then [Focus] else [])
     @ (if canScrollIntoView mathField then [ScrollIntoView] else [])
     @ (if fieldId mathField \<noteq> [] then setMathFieldValueInPage env (fieldId mathField) latex else [])
     @ dispatchPasteWithData env mathField latex
     @ [Settle 80]
     @ (if hasSetValue mathField then [CallSetValue latex]
        else if hasInsert mathField then [CallInsert latex]
        else if hasExecuteCommand mathField then
          [CallExecuteCommand ''selectAll'' [], CallExecuteCommand ''insert'' latex]
        else forceSetValue mathField latex)
     @ [InputEvent, ChangeEvent]
     @ [Settle 120]
     @ (if hasSetValue mathField then [CallSetValue latex] else forceSetValue mathField latex)
     @ [InputEvent]"

text \<open>
  The three write steps of the specification, read off the sequence: (a) the clipboard
  paste, (b) a write through the field's value interface, (c) the injected script.
\<close>

datatype write_step = PasteStep | DirectStep | ScriptStep

fun writeSteps :: "field_action list \<Rightarrow> write_step list" where
  "writeSteps [] = []"
| "writeSteps (PasteEvent l # as) = PasteStep # writeSteps as"
| "writeSteps (InjectScript i l # as) = ScriptStep # writeSteps as"
| "writeSteps (CallSetValue l # as) = DirectStep # writeSteps as"
| "writeSteps (CallInsert l # as) = DirectStep # writeSteps as"
| "writeSteps (CallExecuteCommand c l # as) =
     (if c = ''insert'' then DirectStep # writeSteps as else writeSteps as)"
| "writeSteps (CallValueSetter l # as) = DirectStep # writeSteps as"
| "writeSteps (AssignValue l # as) = DirectStep # writeSteps as"
| "writeSteps (a # as) = writeSteps as"

fun settles :: "field_action list \<Rightarrow> nat list" where
  "settles [] = []"
| "settles (Settle n # as) = n # settles as"
| "settles (a # as) = settles as"

text \<open>The write steps and the settle delays together, in the order in which they happen.\<close>

datatype timeline_item = Write write_step | Delay nat

fun timeline :: "field_action list \<Rightarrow> timeline_item list" where
  "timeline [] = []"
| "timeline (Settle n # as) = Delay n # timeline as"
| "timeline (a # as) = map Write (writeSteps [a]) @ timeline as"

section \<open>Model listing: \<open>isChatModel\<close> and \<open>fetchModels\<close> (popup.js)\<close>

record model_info =
  model_id :: "string option"

record 'm models_response =
  models_ok :: bool
  models_status :: nat
  models_error_message :: "string option"
  models_data :: "'m list option"

definition isChatModel :: "string option \<Rightarrow> bool" where
  "isChatModel ident =
     (let exclude = [''whisper'', ''orpheus'', ''prompt-guard'', ''safeguard''];
          lower = toLowerCase (orElse ident [])
      in \<not> list_ex (\<lambda>k. includes_str lower k) exclude)"

text \<open>
  \<open>Array.prototype.sort\<close> with a comparison function: the sort is stable, and for a
  consistent comparison function its result is the one of insertion from the right.
  \<open>localeCompare\<close> depends on the locale of the browser and is a parameter.
\<close>

fun insertSorted :: "('a \<Rightarrow> 'a \<Rightarrow> int) \<Rightarrow> 'a \<Rightarrow> 'a list \<Rightarrow> 'a list" where
  "insertSorted cmp x [] = [x]"
| "insertSorted cmp x (y # ys) = (if cmp x y \<le> 0 then x # y # ys else y # insertSorted cmp x ys)"

definition sortWith :: "('a \<Rightarrow> 'a \<Rightarrow> int) \<Rightarrow> 'a list \<Rightarrow> 'a list" where
  "sortWith cmp xs = foldr (insertSorted cmp) xs []"

definition fetchModels ::
  "(string \<Rightarrow> string \<Rightarrow> int) \<Rightarrow> ('a model_info_scheme) models_response
     \<Rightarrow> string + ('a model_info_scheme) list" where
  "fetchModels localeCompare res =
     (if \<not> models_ok res then
        Inl (orElse (models_error_message res) (''API error: '' @ showNat (models_status res)))
      else
        let models = filter (\<lambda>m. isChatModel (model_id m))
                       (case models_data res of None \<Rightarrow> [] | Some d \<Rightarrow> d)
        in Inr (sortWith (\<lambda>a b. localeCompare (orElse (model_id a) []) (orElse (model_id b) []))
                  models))"

text \<open>
  The specification's words: an identifier belongs to an excluded family when some
  substring of it is, up to case, one of the family names; a comparison function is
  consistent when it is total and transitive.
\<close>

definition excludedFamilies :: "string list" where
  "excludedFamilies = [''whisper'', ''orpheus'', ''prompt-guard'', ''safeguard'']"

definition containsIgnoringCase :: "string \<Rightarrow> string \<Rightarrow> bool" where
  "containsIgnoringCase s k = (\<exists>u. sublist u s \<and> toLowerCase u = k)"

definition consistent :: "('a \<Rightarrow> 'a \<Rightarrow> int) \<Rightarrow> bool" where
  "consistent cmp =
     ((\<forall>a b. cmp a b \<le> 0 \<or> cmp b a \<le> 0) \<and>
      (\<forall>a b c. cmp a b \<le> 0 \<and> cmp b c \<le> 0 \<longrightarrow> cmp a c \<le> 0))"

definition byCodeUnits :: "string \<Rightarrow> string \<Rightarrow> int" where
  "byCodeUnits a b = (if a < b then - 1 else if a = b then 0 else 1)"

section \<open>Example inputs\<close>

text \<open>
  Pages, responses and fields at which the theorems below are evaluated. \<open>listItems\<close> are
  the items of a list in the sense of HTML: its \<open>li\<close> children.
\<close>

definition choiceButton :: "string \<Rightarrow> string \<Rightarrow> node" where
  "choiceButton letter label =
     Element ''button'' [(''type'', ''button'')]
       [Element ''span'' [] [Text (''Choice '' @ letter)] None,
        Element ''div'' [(''class'', ''Markdown_root'')] [Text label] None] None"

definition quizPage :: node where
  "quizPage =
     Fragment [Element ''html'' [] [Element ''body'' [] [Element ''article'' []
       [Element ''div'' [] [Text ''Atomi Question''] None,
        Element ''div'' [] [Text '' What is 1 + 1? ''] None,
        Element ''ul'' [(''aria-labelledby'', ''q1'')]
          [Element ''li'' [] [choiceButton ''A'' ''one''] None,
           Element ''li'' [] [choiceButton ''B'' ''two''] None,
           Element ''li'' [] [choiceButton ''C'' ''three''] None] None,
        Element ''button'' [(''aria-disabled'', ''false'')] [Text ''Check Answer''] None,
        Element ''button'' [(''aria-disabled'', ''true'')] [Text '' Next ''] None]
       None] None] None]"

definition mockOracle :: "int option \<Rightarrow> string \<Rightarrow> string list \<Rightarrow> string + int option" where
  "mockOracle r question answers = Inr r"

definition listItems :: "node \<Rightarrow> node list" where
  "listItems list = filter (\<lambda>n. matchesCompound n [Tag ''li'']) (childNodes list)"

definition nestedListPage :: node where
  "nestedListPage =
     Fragment [Element ''html'' [] [Element ''body'' []
       [Element ''ul'' [(''aria-labelledby'', ''q1'')]
          [Element ''li'' []
             [Element ''ul'' [(''aria-labelledby'', ''q2'')]
                [Element ''li'' [] [choiceButton ''A'' ''one''] None] None] None] None]
       None] None]"

definition shadowQuizPage :: node where
  "shadowQuizPage =
     Fragment [Element ''html'' [] [Element ''body'' []
       [Element ''quiz-host'' [] []
          (Some (Fragment [Element ''article'' []
             [Element ''div'' [] [Text ''What is 1 + 1?''] None,
              Element ''ul'' [(''aria-labelledby'', ''q1'')]
                [Element ''li'' [] [choiceButton ''A'' ''one''] None,
                 Element ''li'' [] [choiceButton ''B'' ''two''] None] None] None]))]
       None] None]"

definition imageButton :: node where
  "imageButton =
     Element ''button'' [(''type'', ''button'')]
       [Element ''span'' [] [Text ''Choice A''] None,
        Element ''img'' [(''src'', ''a.png'')] [] None] None"

definition imageChoicePage :: node where
  "imageChoicePage =
     Fragment [Element ''html'' [] [Element ''body'' [] [Element ''article'' []
       [Element ''div'' [] [Text ''Which picture shows a square?''] None,
        Element ''ul'' [(''aria-labelledby'', ''q1'')]
          [Element ''li'' [] [imageButton] None,
           Element ''li'' [] [choiceButton ''B'' ''two''] None] None] None] None] None]"

definition endedVideo :: video where
  "endedVideo = \<lparr>duration = Some 100, currentTime = 100, ended = True\<rparr>"

definition playingVideo :: video where
  "playingVideo = \<lparr>duration = Some 100, currentTime = 90, ended = False\<rparr>"

definition fullField :: math_field where
  "fullField = \<lparr>fieldId = ''answer'', canFocus = True, canScrollIntoView = True,
     hasSetValue = True, hasInsert = True, hasExecuteCommand = True, hasValueSetter = True\<rparr>"

definition fullEnv :: page_env where
  "fullEnv = \<lparr>hasBody = True, hasDataTransfer = True\<rparr>"

definition spec_fullSequenceTwice :: "write_step list" where
  "spec_fullSequenceTwice =
     [PasteStep, DirectStep, ScriptStep, PasteStep, DirectStep, ScriptStep]"

definition listing :: "model_info models_response" where
  "listing = \<lparr>models_ok = True, models_status = 200, models_error_message = None,
     models_data = Some [\<lparr>model_id = Some ''whisper-large-v3''\<rparr>,
       \<lparr>model_id = Some ''llama-3.3-70b-versatile''\<rparr>,
       \<lparr>model_id = Some ''meta-llama/Llama-Prompt-Guard-2''\<rparr>,
       \<lparr>model_id = Some ''gemma2-9b-it''\<rparr>]\<rparr>"

definition idle :: run_state where
  "idle = \<lparr>isAutoRunning = False, trace = []\<rparr>"

definition quietIteration :: iteration where
  "quietIteration = \<lparr>page = quizPage, oracleResult = Inr (Some 2), duringSolve = [],
     duringSettle = [], checkPolls = [(quizPage, [])], duringCheckPause = [],
     nextPolls = [(quizPage, [])], duringNextPause = []\<rparr>"

definition lastIteration :: iteration where
  "lastIteration = quietIteration\<lparr>page := shadowQuizPage\<rparr>"

definition stoppedRun :: "iteration list" where
  "stoppedRun = [quietIteration\<lparr>duringSolve := [StopClicked]\<rparr>, quietIteration, lastIteration]"

definition restartedRun :: "iteration list" where
  "restartedRun =
     [quietIteration\<lparr>duringSolve := [StopClicked, RunAllClicked quizPage]\<rparr>,
      quietIteration, lastIteration]"

definition nextControl :: node where
  "nextControl = Element ''button'' [(''aria-disabled'', ''true'')] [Text '' Next ''] None"

definition restartedTrace :: "item list" where
  "restartedTrace =
     [Boundary, Status ''Solving current question...'', Extract,
      Env StopClicked, Status ''Stopping...'', Env (RunAllClicked quizPage),
      ClickAnswer (choiceButton ''B'' ''two''),
      Status ''Moving to next question...'', ClickNext nextControl,
      Boundary, Status ''Solving current question...'', Extract,
      ClickAnswer (choiceButton ''B'' ''two''),
      Status ''Moving to next question...'', ClickNext nextControl,
      Boundary, Status ''Ready'']"

section \<open>Lemmas: the answer parse\<close>



lemma nonzero_digit_word: "isNonZeroDigit c \<Longrightarrow> isWordChar c"
  by (simp add: isNonZeroDigit_def isWordChar_def isDigit_def)

lemma nonzero_digit_digit: "isNonZeroDigit c \<Longrightarrow> isDigit c"
  by (simp add: isNonZeroDigit_def isDigit_def)

lemma digit_word: "isDigit c \<Longrightarrow> isWordChar c"
  by (simp add: isWordChar_def)

lemma isWordBefore_simps [simp]:
  "isWordBefore (Some c) = isWordChar c" "isWordBefore None = False"
  by (simp_all add: isWordBefore_def)

lemma matchAll_words:
  "matchAll prev s =
     filter shortNumeral (words (if isWordBefore prev then dropWhile isWordChar s else s))"
proof (induction prev s rule: matchAll.induct)
  case (1 prev)
  then show ?case by simp
next
  case (2 prev c rest)
  show ?case
  proof (cases "matchHere prev (c # rest)")
    case None
    note IH = "2.IH"(1)[OF None]
    show ?thesis
    proof (cases "isWordChar c")
      case False
      then show ?thesis using None IH
        by simp
    next
      case True
      show ?thesis
      proof (cases "isWordBefore prev")
        case True
        then show ?thesis using \<open>isWordChar c\<close> None IH by simp
      next
        case False
        have "\<not> shortNumeral (takeWhile isWordChar (c # rest))"
          using None False True
          by (auto simp: shortNumeral_def isIntegerToken_def wordBoundary_def isWordAfter_def
                digit_word split: list.splits if_splits)
        then show ?thesis using \<open>isWordChar c\<close> None IH False by simp
      qed
    qed
  next
    case (Some a)
    obtain m rest' where a: "a = (m, rest')" by (cases a)
    note IH = "2.IH"(2)[OF Some a[symmetric]]
    from Some a have nb: "\<not> isWordBefore prev" and cw: "isWordChar c" and nz: "isNonZeroDigit c"
      by (auto simp: wordBoundary_def isWordAfter_def nonzero_digit_word split: if_splits)
    from Some a have cases: "(m = [c] \<and> rest' = rest \<and> \<not> isWordAfter rest)
        \<or> (\<exists>d. m = [c, d] \<and> rest = d # rest' \<and> isDigit d \<and> \<not> isWordAfter rest')"
      using cw by (auto simp: wordBoundary_def digit_word isWordAfter_def split: if_splits list.splits)
    then show ?thesis
    proof
      assume h: "m = [c] \<and> rest' = rest \<and> \<not> isWordAfter rest"
      then have dw: "dropWhile isWordChar rest = rest" and tw: "takeWhile isWordChar rest = []"
        by (auto simp: isWordAfter_def split: list.splits)
      show ?thesis using Some a IH h nb cw nz dw tw
        by (simp add: shortNumeral_def isIntegerToken_def nonzero_digit_digit)
    next
      assume "\<exists>d. m = [c, d] \<and> rest = d # rest' \<and> isDigit d \<and> \<not> isWordAfter rest'"
      then obtain d where h: "m = [c, d]" "rest = d # rest'" "isDigit d" "\<not> isWordAfter rest'" by blast
      then have dw: "dropWhile isWordChar rest' = rest'" and tw: "takeWhile isWordChar rest' = []"
        by (auto simp: isWordAfter_def split: list.splits)
      show ?thesis using Some a IH h nb cw nz dw tw
        by (simp add: shortNumeral_def isIntegerToken_def nonzero_digit_digit digit_word)
    qed
  qed
qed


lemma words_nonword: "\<forall>c\<in>set s. \<not> isWordChar c \<Longrightarrow> words s = []"
  by (induction s) auto

lemma words_append:
  "\<not> isWordAfter b \<Longrightarrow> words (a @ b) = words a @ words b"
proof (induction a rule: words.induct)
  case 1
  then show ?case by simp
next
  case (2 c cs)
  have nb: "takeWhile isWordChar b = []" "dropWhile isWordChar b = b"
    using "2.prems" by (auto simp: isWordAfter_def split: list.splits)
  show ?case
  proof (cases "isWordChar c")
    case False
    then show ?thesis using 2 by simp
  next
    case True
    show ?thesis
    proof (cases "\<forall>x\<in>set cs. isWordChar x")
      case all: True
      then have tw: "takeWhile isWordChar cs = cs" and dw: "dropWhile isWordChar cs = []" by auto
      have "takeWhile isWordChar (cs @ b) = cs" "dropWhile isWordChar (cs @ b) = b"
        using all nb by (simp_all add: takeWhile_append2 dropWhile_append2)
      then show ?thesis using True by (simp add: tw dw)
    next
      case ex: False
      then have "takeWhile isWordChar (cs @ b) = takeWhile isWordChar cs"
        "dropWhile isWordChar (cs @ b) = dropWhile isWordChar cs @ b"
        by (auto simp: takeWhile_append1 dropWhile_append1)
      then show ?thesis using True "2.IH"(1)[OF True] "2.prems" by simp
    qed
  qed
qed

lemma space_nonword: "isSpace c \<Longrightarrow> \<not> isWordChar c"
  by (auto simp: isSpace_def isWordChar_def isDigit_def isUpper_def isLower_def code_def)

lemma words_dropWhile_space: "words (dropWhile isSpace s) = words s"
  by (induction s) (auto simp: space_nonword)

lemma words_trim: "words (trim s) = words s"
proof -
  let ?t = "dropWhile isSpace s"
  have "?t = rev (dropWhile isSpace (rev ?t)) @ rev (takeWhile isSpace (rev ?t))"
    by (metis rev_append rev_rev_ident takeWhile_dropWhile_id)
  moreover have sp: "\<forall>c\<in>set (rev (takeWhile isSpace (rev ?t))). \<not> isWordChar c"
    by (auto dest: set_takeWhileD simp: space_nonword)
  moreover from sp have "\<not> isWordAfter (rev (takeWhile isSpace (rev ?t)))"
    by (auto simp: isWordAfter_def split: list.splits)
  ultimately have "words ?t = words (trim s) @ words (rev (takeWhile isSpace (rev ?t)))"
    unfolding trim_def by (metis words_append)
  then show ?thesis using sp by (simp add: words_nonword words_dropWhile_space)
qed

lemma words_combined: "words (trim c @ '' '' @ trim r) = words c @ words r"
proof -
  have "\<not> isWordAfter ('' '' @ trim r)"
    by (simp add: isWordAfter_def isWordChar_def isDigit_def isUpper_def isLower_def code_def)
  then have "words (trim c @ '' '' @ trim r) = words (trim c) @ words ('' '' @ trim r)"
    by (rule words_append)
  also have "words ('' '' @ trim r) = words (trim r)"
    by (simp add: isWordChar_def isDigit_def isUpper_def isLower_def code_def)
  finally show ?thesis by (simp add: words_trim)
qed

lemma decimal_snoc: "decimal (s @ [c]) = 10 * decimal s + (code c - 48)"
  by (simp add: decimal_def)

lemma decimal_upper: "list_all isDigit s \<Longrightarrow> decimal s < 10 ^ length s"
proof (induction s rule: rev_induct)
  case Nil
  then show ?case by (simp add: decimal_def)
next
  case (snoc c s)
  then have "decimal s < 10 ^ length s" "code c - 48 \<le> 9"
    by (auto simp: isDigit_def)
  then show ?case by (simp add: decimal_snoc)
qed

lemma decimal_lower:
  "s \<noteq> [] \<Longrightarrow> isNonZeroDigit (hd s) \<Longrightarrow> 10 ^ (length s - 1) \<le> decimal s"
proof (induction s rule: rev_induct)
  case Nil
  then show ?case by simp
next
  case (snoc c s)
  show ?case
  proof (cases "s = []")
    case True
    then show ?thesis using snoc.prems by (auto simp: decimal_def isNonZeroDigit_def)
  next
    case False
    then have "10 ^ (length s - 1) \<le> decimal s" using snoc by simp
    then have "10 * 10 ^ (length s - 1) \<le> 10 * decimal s" by simp
    moreover have "10 * 10 ^ (length s - 1) = (10::nat) ^ length s"
      using False by (cases s) simp_all
    ultimately show ?thesis by (simp add: decimal_snoc)
  qed
qed

lemma integer_token_short: "isIntegerToken t \<Longrightarrow> (length t \<le> 2) = (decimal t \<le> 99)"
proof
  assume t: "isIntegerToken t" and "length t \<le> 2"
  then have "(10::nat) ^ length t \<le> 10 ^ 2" by (intro power_increasing) simp_all
  moreover have "decimal t < 10 ^ length t" using t by (simp add: isIntegerToken_def decimal_upper)
  ultimately show "decimal t \<le> 99" by simp
next
  assume t: "isIntegerToken t" and d: "decimal t \<le> 99"
  show "length t \<le> 2"
  proof (rule ccontr)
    assume "\<not> length t \<le> 2"
    then have "2 \<le> length t - 1" by simp
    then have "(10::nat) ^ 2 \<le> 10 ^ (length t - 1)" by (intro power_increasing) simp_all
    moreover have "10 ^ (length t - 1) \<le> decimal t"
      using t decimal_lower[of t] by (simp add: isIntegerToken_def)
    ultimately show False using d by simp
  qed
qed

lemma filter_short_range:
  "filter (\<lambda>n. 1 \<le> n \<and> n \<le> N) (map decimal (filter shortNumeral ts)) =
   filter (\<lambda>n. 1 \<le> n \<and> n \<le> min N 99) (map decimal (filter isIntegerToken ts))"
  by (induction ts) (auto simp: shortNumeral_def integer_token_short)

lemma parseAnswer_spec:
  "parseAnswer (trim c) (trim r) N = spec_lastIntegerToken c r (min N 99)"
proof -
  have m: "matchAll None (trim c @ '' '' @ trim r) = filter shortNumeral (words c @ words r)"
    by (simp only: matchAll_words isWordBefore_simps if_False words_combined)
  have v: "filter (\<lambda>n. 1 \<le> n \<and> n \<le> N) (map decimal (matchAll None (trim c @ '' '' @ trim r))) =
      filter (\<lambda>n. 1 \<le> n \<and> n \<le> min N 99) (integerTokens c @ integerTokens r)"
    by (simp only: m filter_short_range integerTokens_def map_append filter_append)
  show ?thesis
    unfolding parseAnswer_def spec_lastIntegerToken_def Let_def v by simp
qed

text \<open>
  Claim C1 as stated, at a quiz with 100 choices: the response text \<open>100\<close> holds the
  integer token 100, which is in range, yet the source returns \<open>null\<close>, because the
  regular expression matches numerals of at most two digits.
\<close>

theorem callGroqAPI_three_digits_counterexample:
  "callGroqAPI \<lparr>ok = True, status = 200, error_message = None,
       message_content = Some ''100'', message_reasoning = None\<rparr> (replicate 100 ''x'') = Inr None
   \<and> spec_lastIntegerToken ''100'' [] (length (replicate 100 ''x'')) = Some 100"
  by code_simp

text \<open>
  Claim C1, amended: on a successful response \<open>callGroqAPI\<close> returns the last integer
  token of the primary text followed by the reasoning text whose value lies in
  \<open>[1, min N 99]\<close>, where \<open>N\<close> is the number of choices, and \<open>null\<close> when there is
  none. For at most 99 choices this is the last integer token in \<open>[1, N]\<close>.
\<close>

theorem callGroqAPI_last_short_token:
  "ok response \<Longrightarrow>
   callGroqAPI response answers =
     Inr (spec_lastIntegerToken (orElse (message_content response) [])
            (orElse (message_reasoning response) []) (min (length answers) 99))"
  by (simp add: callGroqAPI_def parseAnswer_spec)

theorem callGroqAPI_last_short_token_witness:
  "ok \<lparr>ok = True, status = 200, error_message = None,
       message_content = Some ''1 or maybe 2'', message_reasoning = None\<rparr>
   \<and> callGroqAPI \<lparr>ok = True, status = 200, error_message = None,
       message_content = Some ''1 or maybe 2'', message_reasoning = None\<rparr> [''a'', ''b'', ''c'']
     = Inr (Some 2)
   \<and> callGroqAPI \<lparr>ok = True, status = 200, error_message = None,
       message_content = Some [], message_reasoning = Some ''...final answer is 2...''\<rparr>
       [''a'', ''b'', ''c'']
     = Inr (Some 2)"
proof -
  have 1: "spec_lastIntegerToken ''1 or maybe 2'' [] (min (length [''a'', ''b'', ''c'']) 99) = Some 2"
    by code_simp
  have 2: "spec_lastIntegerToken [] ''...final answer is 2...'' (min (length [''a'', ''b'', ''c'']) 99)
      = Some 2"
    by code_simp
  show ?thesis
    using callGroqAPI_last_short_token
        [of "\<lparr>ok = True, status = 200, error_message = None,
              message_content = Some ''1 or maybe 2'', message_reasoning = None\<rparr>"
            "[''a'', ''b'', ''c'']"]
      callGroqAPI_last_short_token
        [of "\<lparr>ok = True, status = 200, error_message = None,
              message_content = Some [], message_reasoning = Some ''...final answer is 2...''\<rparr>"
            "[''a'', ''b'', ''c'']"]
      1 2
    by (simp add: orElse_def)
qed

section \<open>Lemmas: extraction and the actuator\<close>

lemma type_value_ignores_case:
  "matchesCompound (Element ''button'' [(''type'', ''BUTTON'')] [Text ''Choice A one''] None)
     [Tag ''button'', AttrEquals ''type'' ''button'']
   \<and> \<not> matchesCompound (Element ''button'' [(''type'', ''submit'')] [] None)
     [Tag ''button'', AttrEquals ''type'' ''button'']
   \<and> \<not> matchesCompound (Element ''div'' [(''class'', ''markdown'')] [] None)
     [AttrContains ''class'' ''Markdown'']"
  by code_simp

lemma answerText_button: "answerText li \<noteq> [] \<Longrightarrow> querySelector li answerButton \<noteq> None"
  by (auto simp: answerText_def split: option.splits)

lemma map_filter_nonempty:
  "x \<in> set xs \<Longrightarrow> f x \<noteq> None \<Longrightarrow> List.map_filter f xs \<noteq> []"
  by (induction xs) (auto simp: List.map_filter_simps split: option.splits)

lemma answers_need_buttons:
  assumes "getAnswers document \<noteq> []"
  shows "getAnswerButtons document \<noteq> []"
proof -
  from assms obtain list where l: "querySelector document answerList = Some list"
    by (auto simp: getAnswers_def split: option.splits)
  with assms obtain li where li: "li \<in> set (querySelectorAll list answerItems)"
    and "answerText li \<noteq> []"
    by (auto simp: getAnswers_def filter_empty_conv)
  then have "querySelector li answerButton \<noteq> None" by (simp add: answerText_button)
  with li have "List.map_filter (\<lambda>li. querySelector li answerButton)
      (querySelectorAll list answerItems) \<noteq> []"
    by (rule map_filter_nonempty)
  then show ?thesis using l by (simp add: getAnswerButtons_def)
qed

lemma length_map_filter:
  "length (List.map_filter f xs) = length (filter (\<lambda>x. f x \<noteq> None) xs)"
  by (induction xs) (auto simp: List.map_filter_simps split: option.splits)

lemma quizPage_question: "getQuestionText textContent quizPage = ''What is 1 + 1?''"
  by code_simp

lemma quizPage_answers: "getAnswers quizPage = [''one'', ''two'', ''three'']"
  by code_simp

lemma quizPage_buttons:
  "getAnswerButtons quizPage =
     [choiceButton ''A'' ''one'', choiceButton ''B'' ''two'', choiceButton ''C'' ''three'']"
  by code_simp

lemma solve_with_groqOracle:
  "solveCurrentQuestion textContent
     (groqOracle \<lparr>ok = True, status = 200, error_message = None,
        message_content = Some ''The answer is 2.'', message_reasoning = None\<rparr>) quizPage =
     (Inr \<lparr>success = True, index = Some 2, error = None\<rparr>, [choiceButton ''B'' ''two''])"
  by code_simp

text \<open>
  Claim C2: for a solve attempt with a non-empty extracted question and non-empty answers,
  an oracle index \<open>k\<close> with \<open>1 \<le> k \<le> M\<close>, where \<open>M\<close> is the number of extracted
  buttons, makes \<open>solveCurrentQuestion\<close> click exactly the \<open>k\<close>-th button and report
  success with index \<open>k\<close>; on \<open>null\<close> or an index outside \<open>[1, M]\<close> nothing is clicked
  and the failure "Invalid API response" is reported.
\<close>

theorem solveCurrentQuestion_clicks_kth:
  assumes "getQuestionText innerText document \<noteq> []" and "getAnswers document \<noteq> []"
  shows "(oracle (getQuestionText innerText document) (getAnswers document) = Inr (Some k)
            \<and> 1 \<le> k \<and> k \<le> int (length (getAnswerButtons document))
          \<longrightarrow> solveCurrentQuestion innerText oracle document =
                (Inr \<lparr>success = True, index = Some k, error = None\<rparr>,
                 [getAnswerButtons document ! (nat k - 1)]))
       \<and> (oracle (getQuestionText innerText document) (getAnswers document) = Inr None
          \<longrightarrow> solveCurrentQuestion innerText oracle document =
                (Inr \<lparr>success = False, index = None,
                      error = Some ''Invalid API response (got null)''\<rparr>, []))
       \<and> (oracle (getQuestionText innerText document) (getAnswers document) = Inr (Some k)
            \<and> (k < 1 \<or> int (length (getAnswerButtons document)) < k)
          \<longrightarrow> solveCurrentQuestion innerText oracle document =
                (Inr \<lparr>success = False, index = None,
                      error = Some (''Invalid API response (got '' @ showInt k @ '')'')\<rparr>, []))"
proof -
  have b: "getAnswerButtons document \<noteq> []" using assms(2) by (rule answers_need_buttons)
  show ?thesis using assms b
    by (auto simp: solveCurrentQuestion_def Let_def)
qed

theorem solveCurrentQuestion_clicks_kth_witness:
  "getQuestionText textContent quizPage \<noteq> [] \<and> getAnswers quizPage \<noteq> []
   \<and> solveCurrentQuestion textContent (mockOracle (Some 2)) quizPage =
       (Inr \<lparr>success = True, index = Some 2, error = None\<rparr>, [choiceButton ''B'' ''two''])
   \<and> solveCurrentQuestion textContent (mockOracle None) quizPage =
       (Inr \<lparr>success = False, index = None, error = Some ''Invalid API response (got null)''\<rparr>, [])
   \<and> solveCurrentQuestion textContent (mockOracle (Some 4)) quizPage =
       (Inr \<lparr>success = False, index = None, error = Some ''Invalid API response (got 4)''\<rparr>, [])"
proof -
  have q: "getQuestionText textContent quizPage \<noteq> []" by (simp add: quizPage_question)
  have a: "getAnswers quizPage \<noteq> []" by (simp add: quizPage_answers)
  have s: "showInt 4 = ''4''" by code_simp
  show ?thesis
    using solveCurrentQuestion_clicks_kth [OF q a, of "mockOracle (Some 2)" 2]
      solveCurrentQuestion_clicks_kth [OF q a, of "mockOracle None" 0]
      solveCurrentQuestion_clicks_kth [OF q a, of "mockOracle (Some 4)" 4]
    by (simp add: q a s mockOracle_def quizPage_buttons)
qed

section \<open>The Page Classifier\<close>

text \<open>
  What \<open>isQuizPage\<close> requires: the first labelled list of the light DOM has two
  elements selected by \<open>ul[aria-labelledby] > li\<close> below it that contain a
  \<open>button[type="button"]\<close>.
\<close>

lemma isQuizPage_needs_two_items:
  "isQuizPage document \<Longrightarrow>
   \<exists>list. querySelector document answerList = Some list \<and>
      2 \<le> length (filter (\<lambda>li. querySelector li answerButton \<noteq> None)
                    (querySelectorAll list answerItems))"
  by (auto simp: isQuizPage_def Let_def length_map_filter split: option.splits if_splits)

text \<open>
  When no labelled list is nested in the answer list, the selected items are the list items
  of the answer list, and a page classified as Quiz has two of them with a button.
\<close>

lemma walk_parent:
  "(p, b, e) \<in> set (walk r pre ns) \<Longrightarrow>
   p = r \<or> (\<exists>p' b'. (p', b', p) \<in> set (walk r pre ns))"
  by (induction r pre ns rule: walk.induct) fastforce+

lemma walk_no_parent:
  assumes "\<not> U r" and "\<forall>(p, b, e)\<in>set (walk r pre ns). \<not> U e"
  shows "filter (\<lambda>(p, b, e). Q e \<and> U p) (walk r pre ns) = []"
proof -
  have "\<not> U p" if "(p, b, e) \<in> set (walk r pre ns)" for p b e
    using walk_parent [OF that] assms by auto
  then show ?thesis by (auto simp: filter_empty_conv)
qed

lemma walk_children:
  assumes "U r" and "\<forall>(p, b, e)\<in>set (walk r pre ns). \<not> U e"
  shows "map (\<lambda>(p, b, e). e) (filter (\<lambda>(p, b, e). Q e \<and> U p) (walk r pre ns)) =
         filter (\<lambda>n. isElement n \<and> Q n) ns"
  using assms
proof (induction r pre ns rule: walk.induct)
  case (1 parent preceding)
  then show ?case by simp
next
  case (2 parent preceding tag attrs kids sr ns)
  let ?el = "Element tag attrs kids sr"
  have nu: "\<not> U ?el" using "2.prems"(2) by auto
  have inner: "filter (\<lambda>(p, b, e). Q e \<and> U p) (walk ?el [] kids) = []"
    using nu "2.prems"(2) by (intro walk_no_parent) auto
  have rest: "map (\<lambda>(p, b, e). e)
      (filter (\<lambda>(p, b, e). Q e \<and> U p) (walk parent (?el # preceding) ns)) =
      filter (\<lambda>n. isElement n \<and> Q n) ns"
    using "2.prems" by (intro "2.IH"(2)) auto
  show ?case using "2.prems"(1) inner rest by simp
qed simp_all

lemma querySelector_matches:
  "querySelector r (Sel c) = Some e \<Longrightarrow> matchesCompound e c"
proof -
  assume "querySelector r (Sel c) = Some e"
  then have "e \<in> set (querySelectorAll r (Sel c))"
    by (auto simp: querySelector_def split: list.splits)
  then show ?thesis by (auto simp: querySelectorAll_def querySelectorAllCtx_def)
qed

lemma querySelector_None:
  "querySelector r (Sel c) = None \<Longrightarrow>
   \<forall>(p, b, e)\<in>set (walk r [] (childNodes r)). \<not> matchesCompound e c"
  by (auto simp: querySelector_def querySelectorAll_def querySelectorAllCtx_def
      filter_empty_conv split: list.splits)

lemma answerItems_are_listItems:
  assumes "matchesCompound list [Tag ''ul'', HasAttr ''aria-labelledby'']"
    and "querySelector list answerList = None"
  shows "querySelectorAll list answerItems = listItems list"
proof -
  let ?U = "\<lambda>n. matchesCompound n [Tag ''ul'', HasAttr ''aria-labelledby'']"
  let ?Q = "\<lambda>n. matchesCompound n [Tag ''li'']"
  have "\<forall>(p, b, e)\<in>set (walk list [] (childNodes list)). \<not> ?U e"
    using assms(2) unfolding answerList_def by (rule querySelector_None)
  with assms(1) have "map (\<lambda>(p, b, e). e)
      (filter (\<lambda>(p, b, e). ?Q e \<and> ?U p) (walk list [] (childNodes list))) =
      filter (\<lambda>n. isElement n \<and> ?Q n) (childNodes list)"
    by (rule walk_children)
  moreover have "(\<lambda>n. isElement n \<and> ?Q n) = ?Q" by (auto simp: matchesCompound_def)
  ultimately show ?thesis
    by (simp add: querySelectorAll_def querySelectorAllCtx_def answerItems_def listItems_def)
qed

lemma isQuizPage_two_list_items:
  assumes "isQuizPage document" and "querySelector document answerList = Some list"
    and "querySelector list answerList = None"
  shows "2 \<le> length (filter (\<lambda>li. querySelector li answerButton \<noteq> None) (listItems list))"
proof -
  have "matchesCompound list [Tag ''ul'', HasAttr ''aria-labelledby'']"
    using assms(2) unfolding answerList_def by (rule querySelector_matches)
  then have "querySelectorAll list answerItems = listItems list"
    using assms(3) by (rule answerItems_are_listItems)
  with isQuizPage_needs_two_items [OF assms(1)] assms(2) show ?thesis by simp
qed

text \<open>
  Claim C5 says that a page is classified as Quiz only if a labelled answer list has at
  least two list items each containing a button, so never when the answer list has one
  item. The source evaluated on a page whose labelled list has a single item, which holds a
  second labelled list with a single item and the only button of the page: the selector
  \<open>ul[aria-labelledby] > li\<close>, run from the outer list, also selects the item of the inner
  list, both items contain the one button, and the page is classified as Quiz.
\<close>

theorem isQuizPage_nested_list:
  "isQuizPage nestedListPage
   \<and> map (\<lambda>list. length (listItems list)) (querySelectorAll nestedListPage answerList) = [1, 1]
   \<and> querySelectorAll nestedListPage (Sel [Tag ''button'']) = [choiceButton ''A'' ''one'']"
  by code_simp

section \<open>Shadow trees and the Extractor\<close>

text \<open>
  Claim C6 as stated, at a page whose article and answer list exist only inside the shadow
  tree of a host element: \<open>findInDocument\<close> finds the list, the quiz extraction
  operations return nothing.
\<close>

theorem shadow_quiz_counterexample:
  "findInDocument shadowQuizPage answerList \<noteq> None
   \<and> getAnswers shadowQuizPage = []
   \<and> getAnswerButtons shadowQuizPage = []
   \<and> getQuestionText textContent shadowQuizPage = []"
  by code_simp

text \<open>
  Claim C6, amended: the quiz extraction operations search the light DOM only. On every
  document whose labelled answer list exists only inside shadow trees (where
  \<open>findInDocument\<close> finds it), \<open>getAnswers\<close> and \<open>getAnswerButtons\<close> return the empty
  sequence and the page is not classified as Quiz; \<open>getQuestionText\<close> returns the empty
  string when no \<open>article\<close> is in the light DOM either.
\<close>

theorem extraction_light_dom_only:
  assumes "querySelector document answerList = None"
    and "findInDocument document answerList = Some list"
  shows "getAnswers document = [] \<and> getAnswerButtons document = [] \<and> \<not> isQuizPage document
     \<and> (querySelector document article = None \<longrightarrow> getQuestionText innerText document = [])"
  using assms(1) by (simp add: getAnswers_def getAnswerButtons_def isQuizPage_def getQuestionText_def)

theorem extraction_light_dom_only_witness:
  "querySelector shadowQuizPage answerList = None
   \<and> findInDocument shadowQuizPage answerList \<noteq> None
   \<and> getAnswers shadowQuizPage = [] \<and> getAnswerButtons shadowQuizPage = []
   \<and> \<not> isQuizPage shadowQuizPage
   \<and> getQuestionText textContent shadowQuizPage = []"
proof -
  have 1: "querySelector shadowQuizPage answerList = None" by code_simp
  have 2: "querySelector shadowQuizPage article = None" by code_simp
  have "findInDocument shadowQuizPage answerList \<noteq> None" by code_simp
  then obtain list where 3: "findInDocument shadowQuizPage answerList = Some list" by blast
  show ?thesis
    using extraction_light_dom_only [OF 1 3, of textContent] 1 2 3 by simp
qed

section \<open>Order of answers and buttons\<close>

text \<open>
  When every item with a button has a label that is not empty, answers and buttons come
  from the same items in the same order.
\<close>

lemma map_filter_as_map:
  "List.map_filter f xs = map (\<lambda>x. the (f x)) (filter (\<lambda>x. f x \<noteq> None) xs)"
  by (induction xs) (auto simp: List.map_filter_simps split: option.splits)

lemma answerText_no_button: "querySelector li answerButton = None \<Longrightarrow> answerText li = []"
  by (simp add: answerText_def)

lemma filter_map_labels:
  "\<forall>x\<in>set xs. (P x \<longrightarrow> g x \<noteq> []) \<and> (\<not> P x \<longrightarrow> g x = []) \<Longrightarrow>
   filter (\<lambda>t. t \<noteq> []) (map g xs) = map g (filter P xs)"
  by (induction xs) auto

lemma answers_buttons_aligned:
  assumes "querySelector document answerList = Some list"
    and "\<forall>li\<in>set (querySelectorAll list answerItems).
           querySelector li answerButton \<noteq> None \<longrightarrow> answerText li \<noteq> []"
  shows "getAnswers document =
           map answerText (filter (\<lambda>li. querySelector li answerButton \<noteq> None)
                            (querySelectorAll list answerItems))
       \<and> getAnswerButtons document =
           map (\<lambda>li. the (querySelector li answerButton))
             (filter (\<lambda>li. querySelector li answerButton \<noteq> None)
                (querySelectorAll list answerItems))"
proof -
  have "filter (\<lambda>t. t \<noteq> []) (map answerText (querySelectorAll list answerItems)) =
      map answerText (filter (\<lambda>li. querySelector li answerButton \<noteq> None)
                            (querySelectorAll list answerItems))"
    using assms(2) by (intro filter_map_labels) (auto simp: answerText_no_button)
  then show ?thesis using assms(1)
    by (simp add: getAnswers_def getAnswerButtons_def map_filter_as_map)
qed

text \<open>
  Claim C8 says that \<open>getAnswers\<close> and \<open>getAnswerButtons\<close> have equal length and
  correspond position by position. The source evaluated on a page whose first choice is a
  picture (its button has no text besides "Choice A"): \<open>getAnswers\<close> drops the empty
  label, \<open>getAnswerButtons\<close> keeps the button, and index 1, the only answer, clicks the
  button of the picture.
\<close>

theorem getAnswers_getAnswerButtons_misaligned:
  "getAnswers imageChoicePage = [''two'']
   \<and> getAnswerButtons imageChoicePage = [imageButton, choiceButton ''B'' ''two'']
   \<and> solveCurrentQuestion textContent (mockOracle (Some 1)) imageChoicePage =
       (Inr \<lparr>success = True, index = Some 1, error = None\<rparr>, [imageButton])"
  by code_simp

section \<open>The polls of the Run-All Loop\<close>

text \<open>
  Claim C10: the poll for an enabled "Check Answer" control returns a button only if it
  has no \<open>aria-disabled\<close> attribute at all, so a button with \<open>aria-disabled="false"\<close> is
  passed over; the poll for the "next question" control returns the button found exactly
  when it has no \<open>disabled\<close> attribute, whatever its \<open>aria-disabled\<close>.
\<close>

theorem polls_enabled_checks:
  "(waitForCheckAnswerEnabled pages = Some b \<longrightarrow> getAttribute b ''aria-disabled'' = None)
   \<and> (checkAnswerBtn doc = Some c \<and> getAttribute c ''aria-disabled'' = Some ''false''
        \<longrightarrow> waitForCheckAnswerEnabled (doc # later) = waitForCheckAnswerEnabled later)
   \<and> (nextButton doc = Some n
        \<longrightarrow> waitForNextButton (doc # later) =
              (if getAttribute n ''disabled'' = None then Some n else waitForNextButton later))"
proof -
  have "waitForCheckAnswerEnabled pages = Some b \<Longrightarrow> getAttribute b ''aria-disabled'' = None"
    by (induction pages) (auto simp: hasAttribute_def split: option.splits if_splits)
  then show ?thesis by (auto simp: hasAttribute_def disabled_def)
qed

theorem polls_enabled_checks_witness:
  "checkAnswerBtn quizPage =
     Some (Element ''button'' [(''aria-disabled'', ''false'')] [Text ''Check Answer''] None)
   \<and> waitForCheckAnswerEnabled [quizPage, quizPage] = None
   \<and> waitForNextButton [quizPage] =
       Some (Element ''button'' [(''aria-disabled'', ''true'')] [Text '' Next ''] None)"
proof -
  have c: "checkAnswerBtn quizPage =
     Some (Element ''button'' [(''aria-disabled'', ''false'')] [Text ''Check Answer''] None)"
    by code_simp
  have n: "nextButton quizPage =
     Some (Element ''button'' [(''aria-disabled'', ''true'')] [Text '' Next ''] None)"
    by code_simp
  show ?thesis
    using polls_enabled_checks
        [of "[]" quizPage quizPage
            "Element ''button'' [(''aria-disabled'', ''false'')] [Text ''Check Answer''] None"
            "[quizPage]"
            "Element ''button'' [(''aria-disabled'', ''true'')] [Text '' Next ''] None"]
      polls_enabled_checks
        [of "[]" quizPage quizPage
            "Element ''button'' [(''aria-disabled'', ''false'')] [Text ''Check Answer''] None"
            "[]"
            "Element ''button'' [(''aria-disabled'', ''true'')] [Text '' Next ''] None"]
      c n
    by simp
qed

section \<open>The Video Watchdog\<close>

text \<open>Once \<open>advanced\<close> is set, no event changes the state again.\<close>

lemma advanced_is_final: "advanced w \<Longrightarrow> handleEvent ev v nextBtn w = w"
  by (cases ev) (simp_all add: checkTime_def onEnded_def)

lemma advanceToNext_advanced: "advanced (advanceToNext nextBtn w) = advanced w"
  by (simp add: advanceToNext_def Let_def split: option.splits)

lemma handleEvent_sets_advanced:
  "handleEvent ev v nextBtn w \<noteq> w \<Longrightarrow> advanced (handleEvent ev v nextBtn w)"
  by (cases ev) (auto simp: checkTime_def onEnded_def Let_def advanceToNext_advanced split: if_splits)

lemma runEvents_advanced: "advanced w \<Longrightarrow> runEvents evs w = w"
  by (induction evs) (auto simp: advanced_is_final)

lemma qualifying_updates_fire_once:
  "navigations (runEvents [(TimeUpdate, playingVideo, Some ''/next-lesson''),
      (TimeUpdate, playingVideo, Some ''/next-lesson''),
      (PollTick, endedVideo, Some ''/next-lesson''),
      (Ended, endedVideo, Some ''/next-lesson'')] attached) = 1"
  by code_simp

(* C7 *)

text \<open>
  Claim C3 says that the advance action fires exactly once per video, in particular for a
  single time check on a video that is both within 10 seconds of its end and ended. The
  source evaluated on one time check (a \<open>timeupdate\<close> event or a tick of the interval) of a
  video of 100 seconds at its end with \<open>ended\<close> set: \<open>checkTime\<close> tests both conditions
  without looking at \<open>advanced\<close> in between and calls \<open>advanceToNext\<close> twice.
\<close>

theorem checkTime_fires_twice:
  "navigations (checkTime endedVideo (Some ''/next-lesson'') attached) = 2
   \<and> navigations (runEvents [(PollTick, endedVideo, Some ''/next-lesson'')] attached) = 2"
  by code_simp

theorem checkTime_fires_twice_witness:
  "videoAutoAdvanceEnabled (attached :: string watchdog) \<and> \<not> advanced (attached :: string watchdog)
   \<and> nearEnd endedVideo \<and> ended endedVideo
   \<and> navigations (checkTime endedVideo (Some ''/next-lesson'') attached) = 2"
  using checkTime_fires_twice
  by (simp add: attached_def endedVideo_def nearEnd_def ADVANCE_SECONDS_BEFORE_END_def)

section \<open>The math-field actuator\<close>

lemma writeSteps_append: "writeSteps (xs @ ys) = writeSteps xs @ writeSteps ys"
  by (induction xs rule: writeSteps.induct) simp_all

lemma settles_append: "settles (xs @ ys) = settles xs @ settles ys"
  by (induction xs rule: settles.induct) simp_all

lemma timeline_append: "timeline (xs @ ys) = timeline xs @ timeline ys"
  by (induction xs rule: timeline.induct) simp_all

lemma writes_of_timeline:
  "writeSteps xs = concat (map (\<lambda>t. case t of Write w \<Rightarrow> [w] | Delay n \<Rightarrow> []) (timeline xs))"
  by (induction xs rule: writeSteps.induct) (simp_all add: comp_def)

text \<open>
  Claim C7 as stated, at a field with an id and every method: the write steps are the
  script, the paste and two direct writes, not the three steps twice with the script last.
\<close>

theorem setMathFieldValue_counterexample:
  "setMathFieldValue fullEnv fullField ''x^2'' =
     [Focus, ScrollIntoView, InjectScript ''answer'' ''x^2'', Focus, PasteEvent ''x^2'',
      Settle 80, CallSetValue ''x^2'', InputEvent, ChangeEvent, Settle 120,
      CallSetValue ''x^2'', InputEvent]
   \<and> writeSteps (setMathFieldValue fullEnv fullField ''x^2'') \<noteq> spec_fullSequenceTwice"
  by code_simp

text \<open>
  Claim C7, amended: for every math field and LaTeX value the actuator performs, in this
  order, the injected script once (when the field has an id and the document a body), the
  clipboard paste once (when a \<open>DataTransfer\<close> can be built), a settle delay of 80 ms,
  a write through the field's value interface, a settle delay of 120 ms, and a second
  write through the field's value interface; there is no other write step or delay.
\<close>

theorem setMathFieldValue_steps:
  "timeline (setMathFieldValue env mathField latex) =
     (if fieldId mathField \<noteq> [] \<and> hasBody env then [Write ScriptStep] else [])
     @ (if hasDataTransfer env then [Write PasteStep] else [])
     @ [Delay 80, Write DirectStep, Delay 120, Write DirectStep]
   \<and> writeSteps (setMathFieldValue env mathField latex) =
     (if fieldId mathField \<noteq> [] \<and> hasBody env then [ScriptStep] else [])
     @ (if hasDataTransfer env then [PasteStep] else [])
     @ [DirectStep, DirectStep]
   \<and> settles (setMathFieldValue env mathField latex) = [80, 120]"
  by (simp add: setMathFieldValue_def setMathFieldValueInPage_def dispatchPasteWithData_def
      forceSetValue_def writeSteps_append settles_append timeline_append)

theorem setMathFieldValue_steps_witness:
  "timeline (setMathFieldValue fullEnv fullField ''x^2'') =
     [Write ScriptStep, Write PasteStep, Delay 80, Write DirectStep, Delay 120, Write DirectStep]
   \<and> writeSteps (setMathFieldValue fullEnv fullField ''x^2'') =
     [ScriptStep, PasteStep, DirectStep, DirectStep]
   \<and> settles (setMathFieldValue fullEnv fullField ''x^2'') = [80, 120]"
  using setMathFieldValue_steps [of fullEnv fullField "''x^2''"]
  by (simp add: fullEnv_def fullField_def)

section \<open>The model listing\<close>

lemma startsWith_prefix: "startsWith s k = prefix k s"
  by (induction s k rule: startsWith.induct) auto

lemma includes_str_sublist: "includes_str s k = sublist k s"
  by (induction s) (auto simp: startsWith_prefix sublist_Cons_right)

lemma sublist_map_lower:
  "sublist k (map f s) = (\<exists>u. sublist u s \<and> map f u = k)"
proof
  assume "sublist k (map f s)"
  then obtain ps ss where "map f s = ps @ (k @ ss)" by (auto simp: sublist_def)
  from this [THEN map_eq_append_conv [THEN iffD1]]
  obtain ps' r where r: "s = ps' @ r" and mr: "map f r = k @ ss" by auto
  from mr [THEN map_eq_append_conv [THEN iffD1]]
  obtain u ss' where "r = u @ ss'" and "map f u = k" by auto
  with r have "s = ps' @ u @ ss'" by simp
  then have "sublist u s" unfolding sublist_def by blast
  with \<open>map f u = k\<close> show "\<exists>u. sublist u s \<and> map f u = k" by blast
next
  assume "\<exists>u. sublist u s \<and> map f u = k"
  then obtain u ps ss where "s = ps @ u @ ss" and "map f u = k" by (auto simp: sublist_def)
  then have "map f s = map f ps @ k @ map f ss" by auto
  then show "sublist k (map f s)" unfolding sublist_def by blast
qed

lemma includes_lower_contains: "includes_str (toLowerCase s) k = containsIgnoringCase s k"
  unfolding includes_str_sublist toLowerCase_def containsIgnoringCase_def
  by (rule sublist_map_lower)

lemma isChatModel_spec:
  "isChatModel ident =
     (\<not> (\<exists>k\<in>set excludedFamilies. containsIgnoringCase (orElse ident []) k))"
  unfolding isChatModel_def excludedFamilies_def Let_def includes_lower_contains list_ex_iff
  by (rule refl)

lemma mset_insertSorted: "mset (insertSorted cmp x ys) = add_mset x (mset ys)"
  by (induction ys) auto

lemma mset_sortWith: "mset (sortWith cmp xs) = mset xs"
  by (induction xs) (auto simp: sortWith_def mset_insertSorted)

lemma set_insertSorted: "set (insertSorted cmp x ys) = insert x (set ys)"
  by (induction ys) auto

lemma sorted_insertSorted:
  assumes "consistent cmp" and "sorted_wrt (\<lambda>a b. cmp a b \<le> 0) ys"
  shows "sorted_wrt (\<lambda>a b. cmp a b \<le> 0) (insertSorted cmp x ys)"
  using assms(2)
proof (induction ys)
  case Nil
  then show ?case by simp
next
  case (Cons y ys)
  have total: "\<And>a b. cmp a b \<le> 0 \<or> cmp b a \<le> 0"
    and trans: "\<And>a b c. cmp a b \<le> 0 \<Longrightarrow> cmp b c \<le> 0 \<Longrightarrow> cmp a c \<le> 0"
    using assms(1) unfolding consistent_def by blast+
  show ?case
  proof (cases "cmp x y \<le> 0")
    case True
    then have "\<forall>z\<in>set ys. cmp x z \<le> 0" using Cons.prems trans by auto
    then show ?thesis using True Cons.prems by simp
  next
    case False
    then have "cmp y x \<le> 0" using total by blast
    then show ?thesis using False Cons by (auto simp: set_insertSorted)
  qed
qed

lemma sorted_sortWith:
  "consistent cmp \<Longrightarrow> sorted_wrt (\<lambda>a b. cmp a b \<le> 0) (sortWith cmp xs)"
proof (induction xs)
  case Nil
  then show ?case by (simp add: sortWith_def)
next
  case (Cons x xs)
  then have "sorted_wrt (\<lambda>a b. cmp a b \<le> 0) (insertSorted cmp x (sortWith cmp xs))"
    by (intro sorted_insertSorted) simp_all
  then show ?case by (simp add: sortWith_def)
qed

lemma consistent_key: "consistent cmp \<Longrightarrow> consistent (\<lambda>a b. cmp (f a) (f b))"
  unfolding consistent_def by blast

lemma byCodeUnits_consistent: "consistent byCodeUnits"
  unfolding consistent_def byCodeUnits_def by (auto split: if_splits)

text \<open>
  Claim C9: on a successful listing response \<open>fetchModels\<close> returns exactly the models
  whose identifier contains, ignoring case, none of the excluded family names, sorted by
  identifier under the comparison \<open>localeCompare\<close> (any consistent comparison).
\<close>

theorem fetchModels_filters_and_sorts:
  assumes "consistent localeCompare" and "models_ok res"
  shows "\<exists>out. fetchModels localeCompare res = Inr out
     \<and> mset out =
         mset (filter (\<lambda>m. \<not> (\<exists>k\<in>set excludedFamilies.
                 containsIgnoringCase (orElse (model_id m) []) k))
                (case models_data res of None \<Rightarrow> [] | Some ms \<Rightarrow> ms))
     \<and> sorted_wrt (\<lambda>a b. localeCompare (orElse (model_id a) []) (orElse (model_id b) []) \<le> 0) out"
proof -
  let ?key = "\<lambda>m. orElse (model_id m) []"
  let ?cmp = "\<lambda>a b. localeCompare (?key a) (?key b)"
  let ?kept = "filter (\<lambda>m. isChatModel (model_id m))
      (case models_data res of None \<Rightarrow> [] | Some ms \<Rightarrow> ms)"
  have f: "fetchModels localeCompare res = Inr (sortWith ?cmp ?kept)"
    using assms(2) by (simp add: fetchModels_def)
  have "consistent ?cmp" using assms(1) by (rule consistent_key)
  then have "sorted_wrt (\<lambda>a b. ?cmp a b \<le> 0) (sortWith ?cmp ?kept)" by (rule sorted_sortWith)
  moreover have "mset (sortWith ?cmp ?kept) = mset ?kept" by (rule mset_sortWith)
  ultimately show ?thesis using f by (simp add: isChatModel_spec)
qed

theorem fetchModels_filters_and_sorts_witness:
  "consistent byCodeUnits \<and> models_ok listing
   \<and> fetchModels byCodeUnits listing =
       Inr [\<lparr>model_id = Some ''gemma2-9b-it''\<rparr>, \<lparr>model_id = Some ''llama-3.3-70b-versatile''\<rparr>]"
proof -
  have d: "models_data listing = Some [\<lparr>model_id = Some ''whisper-large-v3''\<rparr>,
       \<lparr>model_id = Some ''llama-3.3-70b-versatile''\<rparr>,
       \<lparr>model_id = Some ''meta-llama/Llama-Prompt-Guard-2''\<rparr>,
       \<lparr>model_id = Some ''gemma2-9b-it''\<rparr>]"
    and o: "models_ok listing"
    by (simp_all add: listing_def)
  have e: "fetchModels byCodeUnits listing =
       Inr [\<lparr>model_id = Some ''gemma2-9b-it''\<rparr>, \<lparr>model_id = Some ''llama-3.3-70b-versatile''\<rparr>]"
    by code_simp
  from fetchModels_filters_and_sorts [OF byCodeUnits_consistent o]
  obtain out where "fetchModels byCodeUnits listing = Inr out" by blast
  with e have "out = [\<lparr>model_id = Some ''gemma2-9b-it''\<rparr>,
      \<lparr>model_id = Some ''llama-3.3-70b-versatile''\<rparr>]" by simp
  with o e byCodeUnits_consistent show ?thesis by simp
qed

section \<open>The Run-All Loop\<close>

text \<open>The polls inside the loop return what the polls of the page return.\<close>

lemma awaitCheck_result:
  "fst (awaitCheckAnswerEnabled polls st) = waitForCheckAnswerEnabled (map fst polls)"
  by (induction polls st rule: awaitCheckAnswerEnabled.induct) (auto split: option.splits)

lemma awaitNext_result:
  "fst (awaitNextButton polls st) = waitForNextButton (map fst polls)"
  by (induction polls st rule: awaitNextButton.induct) (auto split: option.splits)

text \<open>
  As long as Run All is not clicked again, a stop request is observed at the next test of
  the loop condition: the flag is then clear, the loop ends, and nothing is extracted or
  clicked after that test. The rest of the iteration in flight still runs.
\<close>

lemma advances_refl: "advances nr st st"
  by (auto simp: advances_def)

lemma advances_trans: "advances nr a b \<Longrightarrow> advances nr b c \<Longrightarrow> advances nr a c"
  unfolding advances_def
  apply clarify
  subgoal for xs ys
    by (rule exI [of _ "xs @ ys"]) auto
  done

lemma advances_emit:
  "x \<noteq> Boundary \<Longrightarrow> x \<noteq> Env StopClicked \<Longrightarrow> advances nr st (emit x st)"
  by (auto simp: advances_def emit_def)

lemma advances_handler: "(nr \<longrightarrow> ev = StopClicked) \<Longrightarrow> advances nr st (handler ev st)"
  by (cases ev) (auto simp: advances_def emit_def Let_def)

lemma advances_during: "(nr \<longrightarrow> onlyStops evs) \<Longrightarrow> advances nr st (during evs st)"
proof (induction evs arbitrary: st)
  case Nil
  then show ?case by (simp add: during_def advances_refl)
next
  case (Cons ev evs)
  have 1: "advances nr st (handler ev st)"
    using Cons.prems by (intro advances_handler) (auto simp: onlyStops_def)
  have 2: "advances nr (handler ev st) (during evs (handler ev st))"
    using Cons.prems by (intro Cons.IH) (auto simp: onlyStops_def)
  have "during (ev # evs) st = during evs (handler ev st)" by (simp add: during_def)
  with 1 2 show ?case by (auto intro: advances_trans)
qed

lemma advances_clicks:
  "advances nr st (foldl (\<lambda>st' btn. emit (ClickAnswer btn) st') st clicks)"
proof (induction clicks arbitrary: st)
  case Nil
  then show ?case by (simp add: advances_refl)
next
  case (Cons b clicks)
  have "advances nr st (emit (ClickAnswer b) st)" by (simp add: advances_emit)
  with Cons.IH [of "emit (ClickAnswer b) st"] show ?case
    by (auto intro: advances_trans)
qed

lemma advances_awaitCheck:
  "(nr \<longrightarrow> list_all (\<lambda>(doc, evs). onlyStops evs) polls) \<Longrightarrow>
   advances nr st (snd (awaitCheckAnswerEnabled polls st))"
proof (induction polls st rule: awaitCheckAnswerEnabled.induct)
  case (1 st)
  then show ?case by (simp add: advances_refl)
next
  case (2 doc evs later st)
  have d: "advances nr st (during evs st)" using "2.prems" by (intro advances_during) auto
  show ?case
  proof (cases "checkAnswerBtn doc")
    case None
    with 2 d show ?thesis by (auto intro: advances_trans)
  next
    case (Some btn)
    with 2 d show ?thesis by (auto intro: advances_trans advances_refl)
  qed
qed

lemma advances_awaitNext:
  "(nr \<longrightarrow> list_all (\<lambda>(doc, evs). onlyStops evs) polls) \<Longrightarrow>
   advances nr st (snd (awaitNextButton polls st))"
proof (induction polls st rule: awaitNextButton.induct)
  case (1 st)
  then show ?case by (simp add: advances_refl)
next
  case (2 doc evs later st)
  have d: "advances nr st (during evs st)" using "2.prems" by (intro advances_during) auto
  show ?case
  proof (cases "nextButton doc")
    case None
    with 2 d show ?thesis by (auto intro: advances_trans)
  next
    case (Some btn)
    with 2 d show ?thesis by (auto intro: advances_trans advances_refl)
  qed
qed

lemma advances_loopBody:
  "advances (noRestart s) st (snd (loopBody innerText s st))"
proof -
  let ?nr = "noRestart s"
  obtain solved clicks where sc:
    "solveCurrentQuestion innerText (\<lambda>question answers. oracleResult s) (page s) = (solved, clicks)"
    by (cases "solveCurrentQuestion innerText (\<lambda>question answers. oracleResult s) (page s)")
  define st1 where "st1 = emit Extract (emit (Status ''Solving current question...'') st)"
  define st2 where "st2 = during (duringSolve s) st1"
  define st3 where "st3 = foldl (\<lambda>st' btn. emit (ClickAnswer btn) st') st2 clicks"
  have a1: "advances ?nr st st1"
    unfolding st1_def by (intro advances_trans [OF advances_emit advances_emit]) simp_all
  have a2: "advances ?nr st1 st2"
    unfolding st2_def by (intro advances_during) (simp add: noRestart_def)
  have a3: "advances ?nr st2 st3"
    unfolding st3_def by (rule advances_clicks)
  have a: "advances ?nr st st3" using a1 a2 a3 by (blast intro: advances_trans)
  show ?thesis
  proof (cases solved)
    case (Inl err)
    have "advances ?nr st3 (emit (Status (''Error: '' @ err)) st3)"
      by (intro advances_emit) simp_all
    with a have "advances ?nr st (emit (Status (''Error: '' @ err)) st3)"
      by (rule advances_trans)
    then show ?thesis
      using sc Inl by (simp add: loopBody_def Let_def st1_def st2_def st3_def)
  next
    case (Inr r)
    show ?thesis
    proof (cases "success r")
      case False
      have "advances ?nr st3 (emit (Status (''Stopped: '' @ orElse (error r) ''undefined'')) st3)"
        by (intro advances_emit) simp_all
      with a have "advances ?nr st
          (emit (Status (''Stopped: '' @ orElse (error r) ''undefined'')) st3)"
        by (rule advances_trans)
      then show ?thesis
        using sc Inr False by (simp add: loopBody_def Let_def st1_def st2_def st3_def)
    next
      case True
      define st4 where "st4 = during (duringSettle s) st3"
      obtain checkBtn st5 where c: "awaitCheckAnswerEnabled (checkPolls s) st4 = (checkBtn, st5)"
        by (cases "awaitCheckAnswerEnabled (checkPolls s) st4")
      define st6 where "st6 = (case checkBtn of
           Some btn \<Rightarrow> during (duringCheckPause s) (emit (ClickCheck btn) st5)
         | None \<Rightarrow> st5)"
      obtain nextBtn st7 where n: "awaitNextButton (nextPolls s) st6 = (nextBtn, st7)"
        by (cases "awaitNextButton (nextPolls s) st6")
      have a4: "advances ?nr st3 st4"
        unfolding st4_def by (intro advances_during) (simp add: noRestart_def)
      have a5: "advances ?nr st4 st5"
        using advances_awaitCheck [of ?nr "checkPolls s" st4] c by (simp add: noRestart_def)
      have a6: "advances ?nr st5 st6"
      proof (cases checkBtn)
        case None
        then show ?thesis by (simp add: st6_def advances_refl)
      next
        case (Some btn)
        have "advances ?nr st5 (emit (ClickCheck btn) st5)" by (intro advances_emit) simp_all
        moreover have "advances ?nr (emit (ClickCheck btn) st5)
            (during (duringCheckPause s) (emit (ClickCheck btn) st5))"
          by (intro advances_during) (simp add: noRestart_def)
        ultimately show ?thesis using Some by (auto simp: st6_def intro: advances_trans)
      qed
      have a7: "advances ?nr st6 st7"
        using advances_awaitNext [of ?nr "nextPolls s" st6] n by (simp add: noRestart_def)
      have b: "advances ?nr st st7" using a a4 a5 a6 a7 by (blast intro: advances_trans)
      show ?thesis
      proof (cases nextBtn)
        case None
        have "advances ?nr st7 (emit (Status ''Quiz complete!'') st7)"
          by (intro advances_emit) simp_all
        with b have "advances ?nr st (emit (Status ''Quiz complete!'') st7)"
          by (rule advances_trans)
        then show ?thesis
          using sc Inr True c n None
          by (simp add: loopBody_def Let_def st1_def st2_def st3_def st4_def st6_def)
      next
        case (Some btn)
        let ?m = "emit (Status ''Moving to next question...'') st7"
        have "advances ?nr st7 ?m" by (intro advances_emit) simp_all
        moreover have "advances ?nr ?m (emit (ClickNext btn) ?m)"
          by (intro advances_emit) simp_all
        moreover have "advances ?nr (emit (ClickNext btn) ?m)
            (during (duringNextPause s) (emit (ClickNext btn) ?m))"
          by (intro advances_during) (simp add: noRestart_def)
        ultimately have "advances ?nr st (during (duringNextPause s) (emit (ClickNext btn) ?m))"
          using b by (blast intro: advances_trans)
        then show ?thesis
          using sc Inr True c n Some
          by (simp add: loopBody_def Let_def st1_def st2_def st3_def st4_def st6_def)
      qed
    qed
  qed
qed

lemma afterBoundary_append:
  "Boundary \<notin> set xs \<Longrightarrow> afterBoundary (xs @ ys) = afterBoundary ys"
  by (induction xs rule: afterBoundary.induct) auto

lemma stopObserved_append:
  "Boundary \<notin> set xs \<Longrightarrow>
   stopObserved (xs @ ys) =
     ((Env StopClicked \<in> set xs \<longrightarrow> list_all (\<lambda>x. \<not> isSolveStep x) (afterBoundary ys))
      \<and> stopObserved ys)"
  by (induction xs rule: stopObserved.induct) (auto simp: afterBoundary_append)

lemma runLoop_stop_observed:
  assumes "list_all noRestart script" and "runLoop innerText script st = Some st'"
  shows "\<exists>items. trace st' = trace st @ items \<and> stopObserved items
      \<and> (\<not> isAutoRunning st \<longrightarrow> list_all (\<lambda>x. \<not> isSolveStep x) (afterBoundary items))"
  using assms
proof (induction script arbitrary: st)
  case Nil
  then show ?case
    by (auto simp: finallyBlock_def emit_def split: if_splits)
next
  case (Cons s later)
  show ?case
  proof (cases "isAutoRunning st \<and> isQuizPage (page s)")
    case False
    with Cons.prems show ?thesis
      by (auto simp: finallyBlock_def emit_def)
  next
    case True
    obtain continue stb where lb: "loopBody innerText s (emit Boundary st) = (continue, stb)"
      by (cases "loopBody innerText s (emit Boundary st)")
    have nr: "noRestart s" using Cons.prems(1) by simp
    from advances_loopBody [of s "emit Boundary st" innerText] lb nr
    obtain body where body: "trace stb = trace st @ [Boundary] @ body" "Boundary \<notin> set body"
      "isAutoRunning stb = (isAutoRunning st \<and> Env StopClicked \<notin> set body)"
      by (auto simp: advances_def emit_def)
    show ?thesis
    proof (cases continue)
      case False
      then have "st' = finallyBlock stb" using Cons.prems(2) True lb by simp
      then have "trace st' = trace st @ (Boundary # body @ [Status ''Ready''])"
        using body by (simp add: finallyBlock_def emit_def)
      moreover have "stopObserved (Boundary # body @ [Status ''Ready''])"
        using body(2) by (simp add: stopObserved_append)
      ultimately show ?thesis using True by blast
    next
      case c: True
      then have r: "runLoop innerText later stb = Some st'" using Cons.prems(2) True lb by simp
      from Cons.IH [OF _ r] Cons.prems(1)
      obtain rest where rest: "trace st' = trace stb @ rest" "stopObserved rest"
        "\<not> isAutoRunning stb \<longrightarrow> list_all (\<lambda>x. \<not> isSolveStep x) (afterBoundary rest)"
        by auto
      have "trace st' = trace st @ (Boundary # body @ rest)" using body rest by simp
      moreover have "stopObserved (Boundary # body @ rest)"
        using body rest True by (simp add: stopObserved_append)
      ultimately show ?thesis using True by blast
    qed
  qed
qed

lemma runAllQuestions_stop_observed:
  assumes "list_all noRestart script" and "runAllQuestions innerText script idle = Some st'"
  shows "stopObserved (trace st')"
proof -
  from assms(2) have "runLoop innerText script (idle\<lparr>isAutoRunning := True\<rparr>) = Some st'"
    by (simp add: runAllQuestions_def idle_def)
  from runLoop_stop_observed [OF assms(1) this] show ?thesis by (auto simp: idle_def)
qed

lemma stop_in_flight:
  "map_option trace (runAllQuestions textContent stoppedRun idle) =
     Some [Boundary, Status ''Solving current question...'', Extract,
           Env StopClicked, Status ''Stopping...'',
           ClickAnswer (choiceButton ''B'' ''two''),
           Status ''Moving to next question...'', ClickNext nextControl,
           Boundary, Status ''Ready'']"
  by code_simp

text \<open>
  Claim C4 says that every stop request of a running loop is observed at the next loop
  test, after which nothing is extracted and no answer is clicked. The source evaluated on
  a run in which, during the first oracle call, Stop is clicked and then Run All again
  (its button is enabled, since \<open>runAllQuestions\<close> returns without waiting for the
  loop): the second \<open>runAllQuestions\<close> finds the flag clear and sets it, so the first
  loop passes its next test and solves the next question.
\<close>

theorem restart_hides_stop:
  "runAllQuestions textContent restartedRun idle =
     Some \<lparr>isAutoRunning = False, trace = restartedTrace\<rparr>
   \<and> \<not> stopObserved restartedTrace"
  by code_simp

end
